theory Spec2Isabelle
  imports Main "HOL-Library.Char_ord" "HOL-Library.List_Lexorder" "HOL-Library.Multiset"
begin

section \<open>JavaScript values\<close>

text \<open>
  The YAML editor tools (the bundled script of \<open>validator-queue.js\<close>,
  \<open>tree-sitter-annotated-yaml.js\<close>, \<open>parsing.js\<close>, \<open>schemas.js\<close> and
  \<open>automation.js\<close>) pass plain JavaScript values around. The values that reach a
  path are parsed scalars, key texts, item indices and the arrays that nest them.
  Numbers are restricted to integers: offsets and indices are integers, and a parsed
  scalar is only carried through.
\<close>

datatype jsval =
    JNull
  | JBool bool
  | JNum int
  | JStr string
  | JArr "jsval list"
  | JObj "(string \<times> jsval) list"

text \<open>\<open>Array.prototype.flat(Infinity)\<close>: every nested array is spliced in, at any depth.\<close>

fun flat_inf :: "jsval list \<Rightarrow> jsval list" where
  "flat_inf [] = []"
| "flat_inf (JArr ys # xs) = flat_inf ys @ flat_inf xs"
| "flat_inf (x # xs) = x # flat_inf xs"

section \<open>Annotated nodes and the structural cursor locator\<close>

text \<open>
  An annotated node as \<open>annotate\<close> and \<open>annotateEmpty\<close> build it:
  \<open>{start, end, result, kind, components}\<close>.
\<close>

datatype anode = ANode (node_start: nat) (node_end: nat) (result: jsval)
  (kind: string) (components: "anode list")

datatype locate_error =
    CursorOutsideBounds  \<comment> \<open>\<open>Internal error: cursor outside bounds in sequence locate?\<close>\<close>
  | LocateTypeError      \<comment> \<open>reading \<open>.start\<close> of an undefined component\<close>

text \<open>
  \<open>locate(node, pathSoFar)\<close> inside \<open>locateCursor\<close>. The variable \<open>failedLast\<close> of the
  enclosing function is threaded through as the last argument and returned with the
  path. The two \<open>for\<close> loops are \<open>locate_mapping\<close> (stepping by two over the
  components; a missing value component makes \<open>valueC.start\<close> a TypeError) and
  \<open>locate_sequence\<close> (with the loop index \<open>i\<close>). A path is the nested array
  \<open>[x, pathSoFar]\<close> that the source builds.
\<close>

function (sequential) locate :: "nat \<Rightarrow> anode \<Rightarrow> jsval \<Rightarrow> bool \<Rightarrow> locate_error + (jsval \<times> bool)"
and locate_mapping :: "nat \<Rightarrow> anode list \<Rightarrow> jsval \<Rightarrow> bool \<Rightarrow> locate_error + (jsval \<times> bool)"
and locate_sequence :: "nat \<Rightarrow> anode list \<Rightarrow> nat \<Rightarrow> jsval \<Rightarrow> bool \<Rightarrow> locate_error + (jsval \<times> bool)"
where
  "locate position (ANode s e r k cs) pathSoFar failedLast =
     (if k = ''block_mapping'' \<or> k = ''flow_mapping'' then
        locate_mapping position cs pathSoFar failedLast
      else if k = ''block_sequence'' \<or> k = ''flow_sequence'' then
        locate_sequence position cs 0 pathSoFar failedLast
      else if k \<noteq> ''<<EMPTY>>'' then Inr (JArr [r, pathSoFar], failedLast)
      else Inr (pathSoFar, failedLast))"
| "locate_mapping position [] pathSoFar failedLast = Inr (pathSoFar, True)"
| "locate_mapping position [keyC] pathSoFar failedLast =
     (if node_start keyC \<le> position \<and> position \<le> node_end keyC then
        Inr (JArr [result keyC, pathSoFar], failedLast)
      else Inl LocateTypeError)"
| "locate_mapping position (keyC # valueC # rest) pathSoFar failedLast =
     (if node_start keyC \<le> position \<and> position \<le> node_end keyC then
        Inr (JArr [result keyC, pathSoFar], failedLast)
      else if node_start valueC \<le> position \<and> position \<le> node_end valueC then
        locate position valueC (JArr [result keyC, pathSoFar]) failedLast
      else locate_mapping position rest pathSoFar failedLast)"
| "locate_sequence position [] i pathSoFar failedLast = Inl CursorOutsideBounds"
| "locate_sequence position (valueC # rest) i pathSoFar failedLast =
     (if node_start valueC \<le> position \<and> position \<le> node_end valueC then
        locate position valueC (JArr [JNum (int i), pathSoFar]) failedLast
      else if node_start valueC > position then
        (if i = 0 then Inr (pathSoFar, failedLast)
         else Inr (JArr [JNum (int i - 1), pathSoFar], failedLast))
      else locate_sequence position rest (Suc i) pathSoFar failedLast)"
  by pat_completeness auto

termination
  by (relation "measure (\<lambda>x. case x of
        Inl (p, n, ps, f) \<Rightarrow> 2 * size n
      | Inr (Inl (p, ns, ps, f)) \<Rightarrow> 2 * size_list size ns + 1
      | Inr (Inr (p, ns, i, ps, f)) \<Rightarrow> 2 * size_list size ns + 1)") auto

record located =
  withError :: bool
  path_value :: "jsval list"

definition locateCursor :: "anode \<Rightarrow> nat \<Rightarrow> locate_error + located" where
  "locateCursor annotation position =
     (case locate position annotation (JArr []) False of
        Inl e \<Rightarrow> Inl e
      | Inr (p, failedLast) \<Rightarrow>
          Inr \<lparr>withError = failedLast, path_value = rev (flat_inf [p])\<rparr>)"

text \<open>
  The two tests of the sequence loop on an item: the offset lies in the item's range
  (\<open>valueC.start <= position && position <= valueC.end\<close>), or the item starts after
  the offset (\<open>valueC.start > position\<close>).
\<close>

definition covers :: "nat \<Rightarrow> anode \<Rightarrow> bool" where
  "covers position c \<longleftrightarrow> node_start c \<le> position \<and> position \<le> node_end c"

definition starts_after :: "nat \<Rightarrow> anode \<Rightarrow> bool" where
  "starts_after position c \<longleftrightarrow> node_start c > position"

definition is_sequence :: "anode \<Rightarrow> bool" where
  "is_sequence node \<longleftrightarrow> kind node = ''block_sequence'' \<or> kind node = ''flow_sequence''"

text \<open>The annotation of \<open>- a\<close>, \<open>- b\<close> with the items at offsets 2..4 and 6..9.\<close>

definition demo_seq :: anode where
  "demo_seq = ANode 2 9 (JArr [JStr ''a'', JStr ''b'']) ''block_sequence''
     [ANode 2 4 (JStr ''a'') ''plain_scalar'' [], ANode 6 9 (JStr ''b'') ''plain_scalar'' []]"

section \<open>Schemas and the schema navigator\<close>

text \<open>
  A path is an array of \<open>string | number\<close>. Where the navigator uses a segment as a
  property name (\<open>subSchema.properties[key]\<close>, \<open>name.startsWith(key)\<close>) JavaScript
  converts a number to its decimal text.
\<close>

datatype seg = Key string | Index nat

fun string_of_nat :: "nat \<Rightarrow> string" where
  "string_of_nat n =
     (if n < 10 then [char_of (48 + n)]
      else string_of_nat (n div 10) @ [char_of (48 + n mod 10)])"

declare string_of_nat.simps [simp del]

fun seg_str :: "seg \<Rightarrow> string" where
  "seg_str (Key k) = k"
| "seg_str (Index n) = string_of_nat n"

text \<open>
  \<open>path[index]\<close> as a property name; past the end of the path it is \<open>undefined\<close>,
  whose name is the text \<open>undefined\<close>.
\<close>

definition segment_key :: "seg list \<Rightarrow> nat \<Rightarrow> string" where
  "segment_key path index =
     (if index < length path then seg_str (path ! index) else ''undefined'')"

text \<open>\<open>s.startsWith(w)\<close>.\<close>

definition starts_with :: "string \<Rightarrow> string \<Rightarrow> bool" where
  "starts_with s w \<longleftrightarrow> take (length w) s = w"

text \<open>
  A schema node is a JavaScript object with the optional members \<open>$id\<close> and \<open>$ref\<close>
  and the members of its type.

  Modelled from the spec: \<open>core.schemaType\<close> is not part of the sources at hand. The
  spec gives a schema node "a type discriminant: \<open>object\<close> (named properties, each a
  Schema Node), \<open>array\<close> (single item Schema Node), \<open>anyOf\<close>/\<open>oneOf\<close>/\<open>allOf\<close>
  (ordered list of Schema Node)"; the discriminant is the constructor of \<open>shape\<close>, and
  \<open>Scalar\<close> stands for every other type name. \<open>properties\<close> and \<open>items\<close> may be
  absent, as the navigator tests \<open>subSchema.items === void 0\<close> and reads
  \<open>subSchema.properties[key]\<close>. \<open>Inherited name\<close> is not a schema: it stands for the
  value that a lookup in a plain object gives for the name of a member that every
  object inherits (see \<open>obj_get\<close> below); it has no \<open>$id\<close>, no \<open>$ref\<close> and none of the
  discriminants.
\<close>

datatype schema = Schema (schema_id: "string option") (schema_ref: "string option")
  (shape: shape)
and shape =
    Object "(string \<times> schema) list option"
  | Array "schema option"
  | AnyOf "schema list"
  | AllOf "schema list"
  | OneOf "schema list"
  | Scalar string
  | Inherited string

text \<open>
  \<open>refs\<close> and the \<open>properties\<close> of a schema are plain objects. A lookup \<open>obj[name]\<close>
  gives the object's own member of that name if it has one; otherwise, for the name
  of a member of \<open>Object.prototype\<close>, the inherited member, which is not
  \<open>undefined\<close>; otherwise \<open>undefined\<close> (\<open>None\<close>).
\<close>

definition inherited_members :: "string list" where
  "inherited_members =
     [''constructor'', ''hasOwnProperty'', ''isPrototypeOf'', ''propertyIsEnumerable'',
      ''toLocaleString'', ''toString'', ''valueOf'', ''__proto__'',
      ''__defineGetter__'', ''__defineSetter__'', ''__lookupGetter__'', ''__lookupSetter__'']"

definition obj_get :: "(string \<times> schema) list \<Rightarrow> string \<Rightarrow> schema option" where
  "obj_get obj name =
     (case map_of obj name of
        Some v \<Rightarrow> Some v
      | None \<Rightarrow>
          if name \<in> set inherited_members then Some (Schema None None (Inherited name))
          else None)"

datatype nav_error =
    RefUndefined string   \<comment> \<open>\<open>Internal error: schema reference ... undefined\<close>\<close>
  | AllOfUnsupported      \<comment> \<open>\<open>Internal error: don't know how to navigate allOf schema :(\<close>\<close>
  | NavTypeError          \<comment> \<open>reading a member of an absent \<open>properties\<close>\<close>

text \<open>
  \<open>refs\<close> is the object that \<open>navigateSchema\<close> fills while it runs; the newest binding
  of a name is the first one. An element of a result array is a schema or, after
  \<open>anyOf.map(...)\<close>, a nested array.
\<close>

type_synonym refs = "(string \<times> schema) list"

datatype nest = Item schema | Nested "nest list"

fun flat_nest :: "nest list \<Rightarrow> schema list" where
  "flat_nest [] = []"
| "flat_nest (Item s # xs) = s # flat_nest xs"
| "flat_nest (Nested ys # xs) = flat_nest ys @ flat_nest xs"

text \<open>
  The outcome of a call of \<open>inner\<close>: \<open>None\<close> when the recursion does not come back
  within the given depth (a reference may lead back to an ancestor, so the recursion
  of the source need not end), \<open>Some (Inl e)\<close> for a thrown error, and
  \<open>Some (Inr (result, refs))\<close> for a returned array with the bindings left behind.
\<close>

type_synonym 'a nav = "(nav_error + 'a \<times> refs) option"

text \<open>
  \<open>if (subSchema.$id) refs[subSchema.$id] = subSchema\<close>; the empty string is falsy.
  For the identity \<open>__proto__\<close> the assignment replaces the prototype of \<open>refs\<close>: a
  later lookup of \<open>__proto__\<close> gives the schema, as the binding here does, but
  lookups of other names then also see the members of that schema object, which
  the bindings do not record.
\<close>

definition register :: "schema \<Rightarrow> refs \<Rightarrow> refs" where
  "register subSchema refs =
     (case schema_id subSchema of
        None \<Rightarrow> refs
      | Some i \<Rightarrow> if i \<noteq> [] then (i, subSchema) # refs else refs)"

text \<open>\<open>if (subSchema.$ref) { if (refs[$ref] === void 0) throw ...; subSchema = refs[$ref] }\<close>.\<close>

definition resolve :: "schema \<Rightarrow> refs \<Rightarrow> nav_error + schema" where
  "resolve subSchema refs =
     (case schema_ref subSchema of
        None \<Rightarrow> Inr subSchema
      | Some r \<Rightarrow>
          if r = [] then Inr subSchema
          else (case obj_get refs r of
                  None \<Rightarrow> Inl (RefUndefined r)
                | Some target \<Rightarrow> Inr target))"

text \<open>
  \<open>branches.map((ss) => inner(ss, index))\<close>: the branches are visited in order, each
  with the bindings its predecessors left, and the first error ends the map.
\<close>

fun map_nav :: "(schema \<Rightarrow> refs \<Rightarrow> 'a nav) \<Rightarrow> schema list \<Rightarrow> refs \<Rightarrow> 'a list nav" where
  "map_nav f [] refs = Some (Inr ([], refs))"
| "map_nav f (ss # rest) refs =
     (case f ss refs of
        None \<Rightarrow> None
      | Some (Inl e) \<Rightarrow> Some (Inl e)
      | Some (Inr (r, refs')) \<Rightarrow>
          (case map_nav f rest refs' of
             None \<Rightarrow> None
           | Some (Inl e) \<Rightarrow> Some (Inl e)
           | Some (Inr (rs, refs'')) \<Rightarrow> Some (Inr (r # rs, refs''))))"

text \<open>
  \<open>inner(subSchema, index)\<close> of \<open>navigateSchema\<close>, with the recursion depth allowed as
  first argument and \<open>path\<close> and \<open>refs\<close> of the enclosing function passed along.
\<close>

fun inner :: "nat \<Rightarrow> seg list \<Rightarrow> schema \<Rightarrow> nat \<Rightarrow> refs \<Rightarrow> nest list nav" where
  "inner 0 path subSchema index refs = None"
| "inner (Suc depth) path subSchema index refs =
     (let refs1 = register subSchema refs in
      case resolve subSchema refs1 of
        Inl e \<Rightarrow> Some (Inl e)
      | Inr sub \<Rightarrow>
          if index = length path then Some (Inr ([Item sub], refs1))
          else
            (case shape sub of
               Object properties \<Rightarrow>
                 (case properties of
                    None \<Rightarrow> Some (Inl NavTypeError)
                  | Some props \<Rightarrow>
                      (let key = segment_key path index in
                       case obj_get props key of
                         None \<Rightarrow>
                           if index \<noteq> length path - 1 then Some (Inr ([], refs1))
                           else if filter (\<lambda>name. starts_with name key) (map fst props) = []
                             then Some (Inr ([], refs1))
                           else Some (Inr ([Item sub], refs1))
                       | Some child \<Rightarrow> inner depth path child (index + 1) refs1))
             | Array items \<Rightarrow>
                 (case items of
                    None \<Rightarrow> Some (Inr ([], refs1))
                  | Some item \<Rightarrow> inner depth path item (index + 1) refs1)
             | AnyOf branches \<Rightarrow>
                 (case map_nav (\<lambda>ss. inner depth path ss index) branches refs1 of
                    None \<Rightarrow> None
                  | Some (Inl e) \<Rightarrow> Some (Inl e)
                  | Some (Inr (rs, refs2)) \<Rightarrow> Some (Inr (map Nested rs, refs2)))
             | AllOf branches \<Rightarrow> Some (Inl AllOfUnsupported)
             | OneOf branches \<Rightarrow>
                 (case map_nav (\<lambda>ss. inner depth path ss index) branches refs1 of
                    None \<Rightarrow> None
                  | Some (Inl e) \<Rightarrow> Some (Inl e)
                  | Some (Inr (rs, refs2)) \<Rightarrow>
                      (let result = flat_nest (map Nested rs) in
                       if length result \<noteq> 1 then Some (Inr ([], refs2))
                       else Some (Inr (map Item result, refs2))))
             | Scalar t \<Rightarrow> Some (Inr ([], refs1))
             | Inherited name \<Rightarrow> Some (Inr ([], refs1))))"

text \<open>\<open>navigateSchema(schema, path)\<close>: \<open>inner(schema, 0).flat(Infinity)\<close>.\<close>

definition navigateSchema :: "nat \<Rightarrow> schema \<Rightarrow> seg list \<Rightarrow> (nav_error + schema list) option" where
  "navigateSchema depth schema path =
     (case inner depth path schema 0 [] of
        None \<Rightarrow> None
      | Some (Inl e) \<Rightarrow> Some (Inl e)
      | Some (Inr (r, refs)) \<Rightarrow> Some (Inr (flat_nest r)))"

text \<open>
  The calls of \<open>inner\<close> that a call makes directly: into the subschema of a matched
  property, into the item schema of an array, and into each branch of an \<open>anyOf\<close> or
  \<open>oneOf\<close>, in order, once the branches before it have returned. A call is the tuple
  of the depth allowed, the schema, the index and the bindings it starts from.
\<close>

inductive subcall :: "seg list \<Rightarrow> nat \<times> schema \<times> nat \<times> refs \<Rightarrow> nat \<times> schema \<times> nat \<times> refs \<Rightarrow> bool"
  for path :: "seg list"
where
  property:
    "resolve s (register s refs) = Inr sub \<Longrightarrow> index \<noteq> length path \<Longrightarrow>
     shape sub = Object (Some props) \<Longrightarrow>
     obj_get props (segment_key path index) = Some child \<Longrightarrow>
     subcall path (Suc d, s, index, refs) (d, child, index + 1, register s refs)"
| items:
    "resolve s (register s refs) = Inr sub \<Longrightarrow> index \<noteq> length path \<Longrightarrow>
     shape sub = Array (Some item) \<Longrightarrow>
     subcall path (Suc d, s, index, refs) (d, item, index + 1, register s refs)"
| anyOf_branch:
    "resolve s (register s refs) = Inr sub \<Longrightarrow> index \<noteq> length path \<Longrightarrow>
     shape sub = AnyOf (pre @ b # post) \<Longrightarrow>
     map_nav (\<lambda>ss. inner d path ss index) pre (register s refs) = Some (Inr (rs, refs2)) \<Longrightarrow>
     subcall path (Suc d, s, index, refs) (d, b, index, refs2)"
| oneOf_branch:
    "resolve s (register s refs) = Inr sub \<Longrightarrow> index \<noteq> length path \<Longrightarrow>
     shape sub = OneOf (pre @ b # post) \<Longrightarrow>
     map_nav (\<lambda>ss. inner d path ss index) pre (register s refs) = Some (Inr (rs, refs2)) \<Longrightarrow>
     subcall path (Suc d, s, index, refs) (d, b, index, refs2)"

definition run :: "seg list \<Rightarrow> nat \<times> schema \<times> nat \<times> refs \<Rightarrow> nest list nav" where
  "run path c = (case c of (d, s, index, refs) \<Rightarrow> inner d path s index refs)"

text \<open>Schemas used as concrete inputs.\<close>

definition str_schema :: schema where
  "str_schema = Schema None None (Scalar ''string'')"

definition dangling :: schema where
  "dangling = Schema None (Some ''missing'') (Object (Some [(''a'', str_schema)]))"

definition any_dangling :: schema where
  "any_dangling = Schema (Some ''root'') None
     (AnyOf [Schema None None (Object (Some [(''a'', str_schema)])), dangling])"

definition num_schema :: schema where
  "num_schema = Schema None None (Scalar ''number'')"

definition obj_a_str :: schema where
  "obj_a_str = Schema None None (Object (Some [(''a'', str_schema)]))"

definition obj_a_num :: schema where
  "obj_a_num = Schema None None (Object (Some [(''a'', num_schema)]))"

definition obj_b_num :: schema where
  "obj_b_num = Schema None None (Object (Some [(''b'', num_schema)]))"

definition one_of_ab :: schema where
  "one_of_ab = Schema None None (OneOf [obj_a_str, obj_b_num])"

definition one_of_any :: schema where
  "one_of_any = Schema None None (OneOf [Schema None None (AnyOf [obj_a_str, obj_a_num]), obj_b_num])"

section \<open>Text, lines and the reparse search\<close>

text \<open>
  \<open>s.substring(a, b)\<close>: both indices are clamped to the length and swapped when
  \<open>a > b\<close>.
\<close>

definition js_substring :: "string \<Rightarrow> nat \<Rightarrow> nat \<Rightarrow> string" where
  "js_substring s a b =
     (let a' = min a (length s); b' = min b (length s);
          lo = min a' b'; hi = max a' b'
      in take (hi - lo) (drop lo s))"

definition LF :: char where
  "LF = CHR 0x0A"

text \<open>
  Modelled from the spec: \<open>core.lines\<close>, \<open>core.rangedLines\<close> and \<open>core.mappedLines\<close>
  are not part of the sources at hand. The spec speaks of the lines of a document
  and of "splicing the untouched lines before and after the cursor's line around
  the truncated line", and the source joins the pieces with \<open>"\n"\<close>. A text is the
  sequence of its lines separated by line feeds (so every text has at least one
  line and a carriage return is an ordinary character); \<open>rangedLines\<close> gives each
  line as \<open>{substring, range: {start, end}}\<close> with the offsets of the line in the
  text, the end exclusive.
\<close>

fun lines_of :: "string \<Rightarrow> string list" where
  "lines_of [] = [[]]"
| "lines_of (c # cs) =
     (if c = LF then [] # lines_of cs
      else (c # hd (lines_of cs)) # tl (lines_of cs))"

record ranged =
  substring :: string
  range_start :: nat
  range_end :: nat

fun ranged_from :: "nat \<Rightarrow> string list \<Rightarrow> ranged list" where
  "ranged_from offset [] = []"
| "ranged_from offset (l # ls) =
     \<lparr>substring = l, range_start = offset, range_end = offset + length l\<rparr>
       # ranged_from (offset + length l + 1) ls"

definition rangedLines :: "string \<Rightarrow> ranged list" where
  "rangedLines text = ranged_from 0 (lines_of text)"

text \<open>
  Modelled from the spec: \<open>core.mappedString\<close> is not part of the sources at hand. By
  the spec a position-mapped text is "built by concatenating fragments, each either
  a literal string or a \<open>[start,end)\<close> range into a parent mapped text". Only the
  \<open>value\<close> of a mapped text is modelled; its map back to the original offsets is read
  by no property below. A range is cut out with \<open>substring\<close>; the source also passes
  ranges written \<open>{begin: 0, end: n}\<close>, which have no \<open>start\<close> member, and
  \<open>substring\<close> reads an undefined start as 0.
\<close>

datatype chunk = Lit string | Range "nat option" nat

fun chunk_text :: "string \<Rightarrow> chunk \<Rightarrow> string" where
  "chunk_text source (Lit s) = s"
| "chunk_text source (Range None e) = js_substring source 0 e"
| "chunk_text source (Range (Some b) e) = js_substring source b e"

definition mappedString :: "string \<Rightarrow> chunk list \<Rightarrow> string" where
  "mappedString source chunks = concat (map (chunk_text source) chunks)"

text \<open>
  The parser is an external collaborator: a function from a text to the root node of
  its concrete syntax tree, of which the search reads the type only.
\<close>

datatype cst = Node (node_type: string) (startIndex: nat) (endIndex: nat)
  (node_text: string) (children: "cst list")

text \<open>
  A cursor \<open>{row, column}\<close>. The callers compute both by subtraction
  (\<open>context.position.row - codeStartLine\<close>, \<open>context.position.column -
  commentPrefix.length\<close>), so they are integers and may be negative.
\<close>

record position =
  row :: int
  column :: int

record parse_result =
  parse :: cst
  code :: string
  deletions :: nat

datatype search_end =
    Exhausted    \<comment> \<open>the generator ran to its end\<close>
  | RowOutside   \<comment> \<open>TypeError: \<open>codeLines[position.row]\<close> is undefined\<close>

record search =
  yielded :: "parse_result list"
  parses :: nat
  ending :: search_end

text \<open>
  The candidate text of one round of the \<open>while\<close> loop: the chunks pushed for the
  lines before the cursor's line, the truncated line and the lines after it.
\<close>

definition candidate_chunks :: "ranged list \<Rightarrow> nat \<Rightarrow> string \<Rightarrow> nat \<Rightarrow> chunk list" where
  "candidate_chunks codeLines r currentLine currentColumn =
     (if r > 0 then [Range (Some 0) (range_end (codeLines ! (r - 1))), Lit [LF]] else [])
     @ [Lit (js_substring currentLine 0 currentColumn)]
     @ (if r + 1 < length codeLines
        then [Lit [LF], Range (Some (range_start (codeLines ! (r + 1))))
                              (range_end (codeLines ! (length codeLines - 1)))]
        else [])"

text \<open>
  The \<open>while (currentColumn > 0)\<close> loop of \<open>attemptParsesAtLine\<close>, returning the
  candidates it yields in order and the number of times it calls the parser.
\<close>

fun shrink :: "(string \<Rightarrow> cst) \<Rightarrow> string \<Rightarrow> ranged list \<Rightarrow> nat \<Rightarrow> string \<Rightarrow> nat \<Rightarrow> nat
    \<Rightarrow> parse_result list \<times> nat" where
  "shrink parser source codeLines r currentLine 0 dels = ([], 0)"
| "shrink parser source codeLines r currentLine (Suc currentColumn) dels =
     (let newCode = mappedString source (candidate_chunks codeLines r currentLine currentColumn);
          tree2 = parser newCode;
          (later, n) = shrink parser source codeLines r currentLine currentColumn (dels + 1)
      in ((if node_type tree2 \<noteq> ''ERROR''
           then [\<lparr>parse = tree2, code = newCode, deletions = dels + 1\<rparr>] else []) @ later,
          n + 1))"

text \<open>
  \<open>attemptParsesAtLine(context, parser)\<close>, run to its end: a generator is a fresh
  computation at each call, and a consumer that stops early sees a prefix of
  \<open>yielded\<close>. \<open>codeLines[position.row]\<close> is undefined for a row that is negative or
  past the last line, and \<open>while (currentColumn > 0)\<close> does not run for a column
  that is 0 or negative: the loop makes \<open>nat (column pos)\<close> rounds.
\<close>

definition attemptParsesAtLine :: "(string \<Rightarrow> cst) \<Rightarrow> string \<Rightarrow> position \<Rightarrow> search" where
  "attemptParsesAtLine parser source pos =
     (let tree = parser source;
          first = (if node_type tree \<noteq> ''ERROR''
                   then [\<lparr>parse = tree, code = source, deletions = 0\<rparr>] else []);
          codeLines = rangedLines source
      in if row pos < 0 \<or> length codeLines \<le> nat (row pos)
         then \<lparr>yielded = first, parses = 1, ending = RowOutside\<rparr>
         else
           (let currentLine = substring (codeLines ! nat (row pos));
                (later, n) = shrink parser source codeLines (nat (row pos)) currentLine
                               (nat (column pos)) 0
            in \<lparr>yielded = first @ later, parses = 1 + n, ending = Exhausted\<rparr>))"


text \<open>
  A stand-in for the parser on concrete inputs: the root is an error exactly when
  the text opens a flow sequence that it does not close.
\<close>

definition bracket_parser :: "string \<Rightarrow> cst" where
  "bracket_parser text =
     Node (if CHR ''['' \<in> set text \<and> CHR '']'' \<notin> set text then ''ERROR'' else ''stream'')
       0 (length text) text []"


text \<open>
  A text parses cleanly when the root of its tree is not an error node
  (\<open>tree.rootNode.type !== "ERROR"\<close>); \<open>candidate\<close> is the triple that the search
  yields for a text; \<open>truncated source r cc\<close> is the text of the round that keeps
  the first \<open>cc\<close> characters of line \<open>r\<close>.
\<close>

definition clean :: "(string \<Rightarrow> cst) \<Rightarrow> string \<Rightarrow> bool" where
  "clean parser text \<longleftrightarrow> node_type (parser text) \<noteq> ''ERROR''"

definition candidate :: "(string \<Rightarrow> cst) \<Rightarrow> string \<Rightarrow> nat \<Rightarrow> parse_result" where
  "candidate parser text d = \<lparr>parse = parser text, code = text, deletions = d\<rparr>"

definition truncated :: "string \<Rightarrow> nat \<Rightarrow> nat \<Rightarrow> string" where
  "truncated source r cc =
     mappedString source (candidate_chunks (rangedLines source) r (lines_of source ! r) cc)"


section \<open>Completion generator\<close>

text \<open>
  A completion item, \<open>{value, type, schema, suggest_on_accept}\<close>, and the value that
  the promise of \<open>completionsPromise\<close> resolves to, \<open>{token, completions, cacheable}\<close>.
\<close>

datatype completion_type = TKey | TValue

record completion =
  c_value :: string
  c_type :: completion_type
  c_schema :: schema
  suggest_on_accept :: bool

record completion_list =
  token :: string
  items :: "completion list"
  cacheable :: bool

text \<open>\<open>xs.map(f)\<close> for an \<open>f\<close> that may throw: the first error ends the map.\<close>

fun traverse :: "('a \<Rightarrow> 'e + 'b) \<Rightarrow> 'a list \<Rightarrow> 'e + 'b list" where
  "traverse f [] = Inr []"
| "traverse f (x # xs) =
     (case f x of
        Inl e \<Rightarrow> Inl e
      | Inr y \<Rightarrow> (case traverse f xs of Inl e \<Rightarrow> Inl e | Inr ys \<Rightarrow> Inr (y # ys)))"

text \<open>
  The function mapped over the raw candidates of a schema in \<open>completions\<close>. A key
  candidate marked \<open>suggest_on_accept\<close> whose schema is an object gets a line break
  and the indentation of a child appended when the property it names is an object,
  and a dash after that when it is an array. \<open>completion.value.split(":")[0]\<close> is the
  text before the first colon. Reading the type of a property that the object does
  not have is a TypeError, as is reading a property of absent \<open>properties\<close>.
\<close>

definition decorate :: "string \<Rightarrow> nat \<Rightarrow> completion \<Rightarrow> nav_error + completion" where
  "decorate commentPrefix indent completion =
     (if \<not> suggest_on_accept completion \<or> c_type completion = TValue then Inr completion
      else
        (case shape (c_schema completion) of
           Object properties \<Rightarrow>
             (case properties of
                None \<Rightarrow> Inl NavTypeError
              | Some props \<Rightarrow>
                  (let key = takeWhile (\<lambda>c. c \<noteq> CHR '':'') (c_value completion) in
                   case obj_get props key of
                     None \<Rightarrow> Inl NavTypeError
                   | Some subSchema \<Rightarrow>
                       (case shape subSchema of
                          Object ps \<Rightarrow>
                            Inr (completion\<lparr>c_value := c_value completion @ [LF] @ commentPrefix
                                   @ replicate (indent + 2) CHR '' ''\<rparr>)
                        | Array it \<Rightarrow>
                            Inr (completion\<lparr>c_value := c_value completion @ [LF] @ commentPrefix
                                   @ replicate (indent + 2) CHR '' '' @ ''- ''\<rparr>)
                        | _ \<Rightarrow> Inr completion)))
         | _ \<Rightarrow> Inr completion))"

text \<open>
  \<open>Array.prototype.sort\<close> with a comparator is stable, and for a comparator that
  orders the elements consistently its result is determined: it is the list that
  insertion from the right computes. \<open>localeCompare\<close> belongs to the JavaScript
  runtime and is a parameter.
\<close>

fun insert_by :: "('a \<Rightarrow> 'a \<Rightarrow> int) \<Rightarrow> 'a \<Rightarrow> 'a list \<Rightarrow> 'a list" where
  "insert_by cmp x [] = [x]"
| "insert_by cmp x (y # ys) = (if cmp x y \<le> 0 then x # y # ys else y # insert_by cmp x ys)"

definition js_sort :: "('a \<Rightarrow> 'a \<Rightarrow> int) \<Rightarrow> 'a list \<Rightarrow> 'a list" where
  "js_sort cmp xs = foldr (insert_by cmp) xs []"

text \<open>\<open>completionsPromise(opts)\<close>, as the value its promise resolves to.\<close>

definition completionsPromise :: "(string \<Rightarrow> string \<Rightarrow> int) \<Rightarrow> completion list \<Rightarrow> string \<Rightarrow> completion_list" where
  "completionsPromise localeCompare completions2 word =
     \<lparr>token = word,
      items = js_sort (\<lambda>a b. localeCompare (c_value a) (c_value b)) completions2,
      cacheable = True\<rparr>"

text \<open>
  The candidates of \<open>completions\<close> before the filter: for every matching schema the
  raw candidates of the external \<open>schemaCompletions\<close>, decorated, all in one list
  (\<open>.flat()\<close>).
\<close>

definition candidates_of :: "(schema \<Rightarrow> completion list) \<Rightarrow> string \<Rightarrow> nat \<Rightarrow> schema list
    \<Rightarrow> nav_error + completion list" where
  "candidates_of schemaCompletions commentPrefix indent matchingSchemas =
     (case traverse (\<lambda>schema2. traverse (decorate commentPrefix indent) (schemaCompletions schema2))
             matchingSchemas of
        Inl e \<Rightarrow> Inl e
      | Inr nested \<Rightarrow> Inr (concat nested))"

text \<open>
  \<open>completions(obj)\<close>, as the value its promise resolves to: \<open>None\<close> inside is the
  \<open>null\<close> of \<open>noCompletions\<close>. The outer layers are those of \<open>navigateSchema\<close>.
\<close>

definition completions :: "(string \<Rightarrow> string \<Rightarrow> int) \<Rightarrow> (schema \<Rightarrow> completion list) \<Rightarrow> nat
    \<Rightarrow> schema \<Rightarrow> seg list \<Rightarrow> string \<Rightarrow> nat \<Rightarrow> string
    \<Rightarrow> (nav_error + completion_list option) option" where
  "completions localeCompare schemaCompletions depth schema path word indent commentPrefix =
     (case navigateSchema depth schema path of
        None \<Rightarrow> None
      | Some (Inl e) \<Rightarrow> Some (Inl e)
      | Some (Inr matchingSchemas) \<Rightarrow>
          (case candidates_of schemaCompletions commentPrefix indent matchingSchemas of
             Inl e \<Rightarrow> Some (Inl e)
           | Inr candidates \<Rightarrow>
               (let completions2 = filter (\<lambda>c. starts_with (c_value c) word) candidates in
                if length completions2 = 0 then Some (Inr None)
                else Some (Inr (Some (completionsPromise localeCompare completions2 word))))))"

text \<open>
  A comparator orders consistently when any two strings are comparable and the
  comparison is transitive.
\<close>

definition consistent :: "(string \<Rightarrow> string \<Rightarrow> int) \<Rightarrow> bool" where
  "consistent cmp \<longleftrightarrow>
     (\<forall>a b. cmp a b \<le> 0 \<or> cmp b a \<le> 0) \<and>
     (\<forall>a b c. cmp a b \<le> 0 \<and> cmp b c \<le> 0 \<longrightarrow> cmp a c \<le> 0)"

text \<open>
  Concrete collaborators: the comparison of two strings by the lexicographic order
  of their characters, and a candidate source that offers the property names of an
  object schema as keys.
\<close>

definition lex_compare :: "string \<Rightarrow> string \<Rightarrow> int" where
  "lex_compare a b = (if a < b then - 1 else if a = b then 0 else 1)"

definition property_keys :: "schema \<Rightarrow> completion list" where
  "property_keys s =
     (case shape s of
        Object (Some props) \<Rightarrow>
          map (\<lambda>(name, sub). \<lparr>c_value = name, c_type = TKey, c_schema = s,
                 suggest_on_accept = False\<rparr>) props
      | _ \<Rightarrow> [])"

definition size_schema :: schema where
  "size_schema = Schema None None
     (Object (Some [(''width'', num_schema), (''weight'', num_schema), (''height'', num_schema)]))"

text \<open>
  A comparison is the lexicographic one when it ranks two strings as the order of
  their characters does.
\<close>

definition lexicographic :: "(string \<Rightarrow> string \<Rightarrow> int) \<Rightarrow> bool" where
  "lexicographic cmp \<longleftrightarrow> (\<forall>a b. (cmp a b \<le> 0) = (a \<le> b))"

text \<open>
  A candidate source that offers the property names as keys marked
  \<open>suggest_on_accept\<close>, and an object with one property that is an object.
\<close>

definition accept_keys :: "schema \<Rightarrow> completion list" where
  "accept_keys s = map (\<lambda>c. c\<lparr>suggest_on_accept := True\<rparr>) (property_keys s)"

definition nested_schema :: schema where
  "nested_schema = Schema None None (Object (Some [(''a'', Schema None None (Object (Some [])))]))"

text \<open>
  \<open>localeCompare\<close> compares by the collation of the runtime's locale and not by the
  codes of the characters: \<open>"a".localeCompare("B")\<close> is negative, where the code of
  \<open>B\<close> is the smaller one. A comparison of this kind: two strings are compared by
  their lower-case forms.
\<close>

definition lower :: "char \<Rightarrow> char" where
  "lower c =
     (case map_of (zip ''ABCDEFGHIJKLMNOPQRSTUVWXYZ'' ''abcdefghijklmnopqrstuvwxyz'') c of
        Some l \<Rightarrow> l
      | None \<Rightarrow> c)"

definition letters_compare :: "string \<Rightarrow> string \<Rightarrow> int" where
  "letters_compare a b = lex_compare (map lower a) (map lower b)"

definition case_schema :: schema where
  "case_schema = Schema None None (Object (Some [(''B'', num_schema), (''a'', num_schema)]))"

section \<open>Front-matter fences\<close>

text \<open>\<open>s.endsWith(w)\<close>.\<close>

definition ends_with :: "string \<Rightarrow> string \<Rightarrow> bool" where
  "ends_with s w \<longleftrightarrow> length w \<le> length s \<and> drop (length s - length w) s = w"

text \<open>
  Modelled from the spec: \<open>core.mappedLines\<close> is not part of the sources at hand; it
  gives the lines of a mapped text, of which the fence test reads the number.
\<close>

definition mappedLines :: "string \<Rightarrow> string list" where
  "mappedLines text = lines_of text"

text \<open>
  The first two \<open>if\<close> statements of \<open>automationFromGoodParseYAML(kind, context)\<close> and
  of \<open>completionsFromGoodParseYAML(context)\<close>, which are the same text but for the
  test \<open>kind === "completions"\<close> (the first argument; the second function always
  completes). The result is \<open>None\<close> for \<open>return false\<close> and otherwise the code that the
  rest of the function goes on with. Both ranges are written \<open>{begin: 0, end: ...}\<close>.
\<close>

definition strip_fences :: "bool \<Rightarrow> string \<Rightarrow> int \<Rightarrow> string option" where
  "strip_fences completing source r =
     (if starts_with source ''---'' \<and> completing \<and> r = 0 then None
      else
        (let code1 = (if starts_with source ''---''
                      then mappedString source [Range None 3] else source)
         in if ends_with code1 ''---'' then
              (if completing \<and> r = int (length (mappedLines code1)) - 1 then None
               else Some (mappedString code1 [Range None (length code1 - 3)]))
            else Some code1))"

text \<open>A document with a leading fence, and the same document without its fence line.\<close>

definition fenced_doc :: string where
  "fenced_doc = ''---'' @ [LF] @ ''a: 1'' @ [LF]"

definition unfenced_doc :: string where
  "unfenced_doc = ''a: 1'' @ [LF]"

section \<open>Indentation fallback locator\<close>

text \<open>
  \<open>trim\<close>, \<open>trimStart\<close> and \<open>trimEnd\<close> remove white space and line terminators. The
  characters of the model are the 256 of \<^typ>\<open>char\<close>; of these JavaScript removes the
  space, the tab, the line feed, the vertical tab, the form feed, the carriage
  return and the no-break space.
\<close>

definition js_space :: "char \<Rightarrow> bool" where
  "js_space c \<longleftrightarrow>
     c \<in> set [CHR '' '', CHR 0x09, CHR 0x0A, CHR 0x0B, CHR 0x0C, CHR 0x0D, CHR 0xA0]"

definition trimStart :: "string \<Rightarrow> string" where
  "trimStart s = dropWhile js_space s"

definition trimEnd :: "string \<Rightarrow> string" where
  "trimEnd s = rev (dropWhile js_space (rev s))"

definition trim :: "string \<Rightarrow> string" where
  "trim s = trimStart (trimEnd s)"

definition getIndent :: "string \<Rightarrow> nat" where
  "getIndent l = length l - length (trimStart l)"

text \<open>\<open>xs[i]\<close> for an index that may be negative or past the end: \<open>undefined\<close> there.\<close>

definition nth_undef :: "'a list \<Rightarrow> int \<Rightarrow> 'a option" where
  "nth_undef xs i = (if 0 \<le> i \<and> nat i < length xs then Some (xs ! nat i) else None)"

text \<open>
  An entry of \<open>predecessor\<close> is a line number, \<open>-1\<close> or \<open>undefined\<close> (\<open>None\<close>), which is
  what \<open>predecessor[-1]\<close> reads. \<open>predecessor[k]\<close> for an index variable:
\<close>

definition pred_at :: "int option list \<Rightarrow> int \<Rightarrow> int option" where
  "pred_at predecessor k = (case nth_undef predecessor k of None \<Rightarrow> None | Some p \<Rightarrow> p)"

text \<open>The object \<open>{predecessor, indentation: indents}\<close> that \<open>getYamlIndentTree\<close> returns.\<close>

record indent_tree =
  tree_predecessor :: "int option list"
  tree_indentation :: "nat list"

text \<open>
  \<open>while (v >= 0 && indents[v] >= lineIndent) v = predecessor[v]\<close>, with the number
  of rounds allowed as first argument (\<open>None\<close> when they do not suffice). A
  comparison with \<open>undefined\<close> is false.
\<close>

fun walk_back :: "nat \<Rightarrow> int option list \<Rightarrow> nat list \<Rightarrow> nat \<Rightarrow> int option \<Rightarrow> int option option" where
  "walk_back 0 predecessor indents lineIndent v = None"
| "walk_back (Suc rounds) predecessor indents lineIndent v =
     (case v of
        None \<Rightarrow> Some None
      | Some k \<Rightarrow>
          (case nth_undef indents k of
             None \<Rightarrow> Some v
           | Some d \<Rightarrow>
               if d \<ge> lineIndent
               then walk_back rounds predecessor indents lineIndent (pred_at predecessor k)
               else Some v))"

text \<open>
  The \<open>for\<close> loop of \<open>getYamlIndentTree\<close> over the lines that are left, with the
  arrays built so far (the line number \<open>i\<close> is their length), \<open>indentation\<close> and
  \<open>prevPredecessor\<close>.
\<close>

fun indent_loop :: "string list \<Rightarrow> int option list \<Rightarrow> nat list \<Rightarrow> int \<Rightarrow> int \<Rightarrow> indent_tree option" where
  "indent_loop [] predecessor indents indentation prevPredecessor =
     Some \<lparr>tree_predecessor = predecessor, tree_indentation = indents\<rparr>"
| "indent_loop (line # rest) predecessor indents indentation prevPredecessor =
     (let i = int (length indents);
          lineIndent = getIndent line;
          indents' = indents @ [lineIndent]
      in if length (trim line) = 0 then
           indent_loop rest (predecessor @ [pred_at predecessor prevPredecessor]) indents'
             indentation prevPredecessor
         else if int lineIndent = indentation then
           indent_loop rest (predecessor @ [pred_at predecessor prevPredecessor]) indents'
             indentation i
         else if int lineIndent < indentation then
           (case walk_back (Suc (length indents')) predecessor indents' lineIndent
                   (Some prevPredecessor) of
              None \<Rightarrow> None
            | Some v \<Rightarrow> indent_loop rest (predecessor @ [v]) indents' (int lineIndent) i)
         else
           indent_loop rest (predecessor @ [Some prevPredecessor]) indents' (int lineIndent) i)"

definition getYamlIndentTree :: "string \<Rightarrow> indent_tree option" where
  "getYamlIndentTree source = indent_loop (lines_of source) [] [] (- 1) (- 1)"

datatype build_error =
    UnknownNodeType string  \<comment> \<open>\<open>Internal error: don't know how to build node of type ...\<close>\<close>
  | ExpectedPair string     \<comment> \<open>\<open>Internal error: Expected a block_mapping_pair, got ...\<close>\<close>
  | JsonSyntaxError         \<comment> \<open>\<open>JSON.parse\<close> of a double-quoted scalar failed\<close>

datatype fault =
    Nav nav_error
  | Locate locate_error
  | Build build_error
  | TypeErr                 \<comment> \<open>TypeError: a member of \<open>undefined\<close> or \<open>null\<close> is read\<close>

text \<open>
  \<open>let prev = lineNo; while (prev >= 0 && lines[prev].trim().length === 0) prev--\<close>,
  for a line number inside the document.
\<close>

fun skip_blank :: "string list \<Rightarrow> nat \<Rightarrow> int" where
  "skip_blank lines 0 = (if length (trim (lines ! 0)) = 0 then - 1 else 0)"
| "skip_blank lines (Suc n) =
     (if length (trim (lines ! Suc n)) = 0 then skip_blank lines n else int (Suc n))"

text \<open>
  The \<open>while (lineNo !== -1)\<close> loop of \<open>locateFromIndentation\<close> with the number of
  rounds allowed, ending in the return of the function: the reversed path, or
  \<open>undefined\<close> (\<open>None\<close>) at a line that is neither blank, nor a dash item, nor a key.
\<close>

fun indent_walk :: "nat \<Rightarrow> string list \<Rightarrow> indent_tree \<Rightarrow> nat \<Rightarrow> int option \<Rightarrow> seg list
    \<Rightarrow> (fault + seg list option) option" where
  "indent_walk 0 lines tree lineIndent lineNo path = None"
| "indent_walk (Suc rounds) lines tree lineIndent lineNo path =
     (case lineNo of
        None \<Rightarrow> Some (Inl TypeErr)
      | Some k \<Rightarrow>
          if k = - 1 then Some (Inr (Some (rev path)))
          else
            (case nth_undef lines k of
               None \<Rightarrow> Some (Inl TypeErr)
             | Some l \<Rightarrow>
                 (let trimmed = trim l;
                      prev = skip_blank lines (nat k)
                  in if length trimmed = 0 \<and> prev = - 1 then Some (Inr (Some (rev path)))
                     else if length trimmed = 0 \<and> getIndent (lines ! nat prev) < lineIndent then
                       indent_walk rounds lines tree lineIndent (Some prev) path
                     else if lineIndent \<ge> tree_indentation tree ! nat k then
                       (if starts_with trimmed ''-'' then
                          indent_walk rounds lines tree lineIndent
                            (pred_at (tree_predecessor tree) k) (path @ [Index 0])
                        else if ends_with trimmed '':'' then
                          indent_walk rounds lines tree lineIndent
                            (pred_at (tree_predecessor tree) k)
                            (path @ [Key (js_substring trimmed 0 (length trimmed - 1))])
                        else if length trimmed \<noteq> 0 then Some (Inr None)
                        else
                          indent_walk rounds lines tree lineIndent
                            (pred_at (tree_predecessor tree) k) path)
                     else
                       indent_walk rounds lines tree lineIndent
                         (pred_at (tree_predecessor tree) k) path)))"

text \<open>
  \<open>locateFromIndentation(context)\<close>. Every round of its loop lowers the line number,
  so \<open>row + 2\<close> rounds are allowed (two for a negative row, where the first round
  ends the loop).
\<close>

definition locateFromIndentation :: "string \<Rightarrow> string \<Rightarrow> position \<Rightarrow> (fault + seg list option) option" where
  "locateFromIndentation line source pos =
     (case getYamlIndentTree source of
        None \<Rightarrow> None
      | Some tree \<Rightarrow>
          indent_walk (nat (row pos) + 2) (lines_of source) tree (getIndent line)
            (Some (row pos)) [])"

section \<open>Annotated-tree builder\<close>

text \<open>
  \<open>annotate\<close> and \<open>annotateEmpty\<close> of \<open>buildAnnotated\<close>. The offset map \<open>mapClosest\<close> of
  the mapped text belongs to a helper that is not part of the sources at hand and
  is a parameter, as is \<open>JSON.parse\<close> of the runtime (\<open>None\<close> when it throws).
\<close>

definition annotate :: "(nat \<Rightarrow> nat) \<Rightarrow> cst \<Rightarrow> jsval \<Rightarrow> anode list \<Rightarrow> anode" where
  "annotate mapClosest node res comps =
     ANode (mapClosest (startIndex node)) (mapClosest (endIndex node)) res (node_type node) comps"

definition annotateEmpty :: "(nat \<Rightarrow> nat) \<Rightarrow> nat \<Rightarrow> anode" where
  "annotateEmpty mapClosest pos = ANode (mapClosest pos) (mapClosest pos) JNull ''<<EMPTY>>'' []"

text \<open>
  The annotation of a key and its value as \<open>block_mapping_pair\<close> and the error
  branch of \<open>block_mapping\<close> build it: \<open>annotate(node, {key: key.result, value:
  value.result}, [key, value])\<close>.
\<close>

definition pair_node :: "(nat \<Rightarrow> nat) \<Rightarrow> cst \<Rightarrow> anode \<Rightarrow> anode \<Rightarrow> anode" where
  "pair_node mapClosest node keyA valueA =
     annotate mapClosest node (JObj [(''key'', result keyA), (''value'', result valueA)])
       [keyA, valueA]"

text \<open>
  \<open>result[key] = value\<close> on an object: an existing member keeps its place. The key is
  converted to a property name (a key annotation is a text or the \<open>null\<close> of
  \<open>annotateEmpty\<close>).
\<close>

fun obj_set :: "(string \<times> jsval) list \<Rightarrow> string \<Rightarrow> jsval \<Rightarrow> (string \<times> jsval) list" where
  "obj_set [] k v = [(k, v)]"
| "obj_set ((k', v') # rest) k v =
     (if k' = k then (k, v) # rest else (k', v') # obj_set rest k v)"

fun js_string :: "jsval \<Rightarrow> string" where
  "js_string (JStr s) = s"
| "js_string JNull = ''null''"
| "js_string (JBool b) = (if b then ''true'' else ''false'')"
| "js_string (JNum n) = (if n < 0 then ''-'' @ string_of_nat (nat (- n)) else string_of_nat (nat n))"
| "js_string (JObj ps) = ''[object Object]''"
| "js_string (JArr xs) = concat (map (\<lambda>x. js_string x @ '','') xs)"

text \<open>
  \<open>buildNode\<close> with its \<open>dispatch\<close> table; \<open>Inr None\<close> is the \<open>null\<close> that \<open>buildNode(null)\<close>
  returns for a wrapper without children. \<open>build_items\<close> is the loop of the two
  sequence rules over the children of the wanted type, \<open>build_pairs\<close> the loop of
  \<open>block_mapping\<close> with the \<open>result\<close> and \<open>components\<close> built so far. Reading
  \<open>.result\<close> of a \<open>null\<close> component is a TypeError.
\<close>

function (sequential) buildNode :: "(nat \<Rightarrow> nat) \<Rightarrow> (string \<Rightarrow> jsval option) \<Rightarrow> cst
    \<Rightarrow> fault + anode option"
and build_items :: "(nat \<Rightarrow> nat) \<Rightarrow> (string \<Rightarrow> jsval option) \<Rightarrow> string \<Rightarrow> cst list
    \<Rightarrow> fault + anode list"
and build_pairs :: "(nat \<Rightarrow> nat) \<Rightarrow> (string \<Rightarrow> jsval option) \<Rightarrow> cst list
    \<Rightarrow> (string \<times> jsval) list \<Rightarrow> anode list \<Rightarrow> fault + (string \<times> jsval) list \<times> anode list"
where
  "buildNode mapClosest parseJson (Node t s e txt cs) =
     (if t = ''stream'' \<or> t = ''document'' \<or> t = ''block_node'' \<or> t = ''flow_node'' then
        (case cs of [] \<Rightarrow> Inr None | c # others \<Rightarrow> buildNode mapClosest parseJson c)
      else if t = ''block_sequence'' then
        (case build_items mapClosest parseJson ''block_sequence_item'' cs of
           Inl err \<Rightarrow> Inl err
         | Inr comps \<Rightarrow>
             Inr (Some (annotate mapClosest (Node t s e txt cs) (JArr (map result comps)) comps)))
      else if t = ''block_sequence_item'' then
        (case cs of
           c0 # c1 # others \<Rightarrow> buildNode mapClosest parseJson c1
         | _ \<Rightarrow> Inr (Some (annotateEmpty mapClosest e)))
      else if t = ''double_quote_scalar'' then
        (case parseJson txt of
           None \<Rightarrow> Inl (Build JsonSyntaxError)
         | Some v \<Rightarrow> Inr (Some (annotate mapClosest (Node t s e txt cs) v [])))
      else if t = ''plain_scalar'' then
        Inr (Some (annotate mapClosest (Node t s e txt cs)
          (case parseJson txt of None \<Rightarrow> JStr txt | Some v \<Rightarrow> v) []))
      else if t = ''flow_sequence'' then
        (case build_items mapClosest parseJson ''flow_node'' cs of
           Inl err \<Rightarrow> Inl err
         | Inr comps \<Rightarrow>
             Inr (Some (annotate mapClosest (Node t s e txt cs) (JArr (map result comps)) comps)))
      else if t = ''block_mapping'' then
        (case build_pairs mapClosest parseJson cs [] [] of
           Inl err \<Rightarrow> Inl err
         | Inr (res, comps) \<Rightarrow>
             Inr (Some (annotate mapClosest (Node t s e txt cs) (JObj res) comps)))
      else if t = ''block_mapping_pair'' then
        (case cs of
           [c0, c1, c2] \<Rightarrow>
             (case buildNode mapClosest parseJson c2 of
                Inl err \<Rightarrow> Inl err
              | Inr None \<Rightarrow> Inl TypeErr
              | Inr (Some valueA) \<Rightarrow>
                  Inr (Some (pair_node mapClosest (Node t s e txt cs)
                    (annotate mapClosest c0 (JStr (node_text c0)) []) valueA)))
         | [c0, c1] \<Rightarrow>
             Inr (Some (pair_node mapClosest (Node t s e txt cs)
               (annotate mapClosest c0 (JStr (node_text c0)) []) (annotateEmpty mapClosest e)))
         | _ \<Rightarrow>
             Inr (Some (pair_node mapClosest (Node t s e txt cs)
               (annotateEmpty mapClosest e) (annotateEmpty mapClosest e))))
      else Inl (Build (UnknownNodeType t)))"
| "build_items mapClosest parseJson wanted [] = Inr []"
| "build_items mapClosest parseJson wanted (child # rest) =
     (if node_type child \<noteq> wanted then build_items mapClosest parseJson wanted rest
      else
        (case buildNode mapClosest parseJson child of
           Inl err \<Rightarrow> Inl err
         | Inr None \<Rightarrow> Inl TypeErr
         | Inr (Some component) \<Rightarrow>
             (case build_items mapClosest parseJson wanted rest of
                Inl err \<Rightarrow> Inl err
              | Inr comps \<Rightarrow> Inr (component # comps))))"
| "build_pairs mapClosest parseJson [] res comps = Inr (res, comps)"
| "build_pairs mapClosest parseJson (child # rest) res comps =
     (if node_type child = ''ERROR'' then
        (let res1 = obj_set res (node_text child) (JStr ''<<ERROR>>'');
             key2 = annotate mapClosest child (JStr (node_text child)) [];
             value2 = annotateEmpty mapClosest (endIndex child)
         in build_pairs mapClosest parseJson rest
              (obj_set res1 (js_string (result key2)) (result value2))
              (comps @ [key2, value2]))
      else if node_type child \<noteq> ''block_mapping_pair'' then
        Inl (Build (ExpectedPair (node_type child)))
      else
        (case buildNode mapClosest parseJson child of
           Inl err \<Rightarrow> Inl err
         | Inr None \<Rightarrow> Inl TypeErr
         | Inr (Some component) \<Rightarrow>
             (case components component of
                [keyA, valueA] \<Rightarrow>
                  build_pairs mapClosest parseJson rest
                    (obj_set res (js_string (result keyA)) (result valueA))
                    (comps @ components component)
              | _ \<Rightarrow> Inl TypeErr)))"
  by pat_completeness auto

termination
  by (relation "measure (\<lambda>x. case x of
        Inl (m, j, n) \<Rightarrow> 2 * size n
      | Inr (Inl (m, j, w, ns)) \<Rightarrow> 2 * size_list size ns + 1
      | Inr (Inr (m, j, ns, r, c)) \<Rightarrow> 2 * size_list size ns + 1)") auto

text \<open>\<open>buildAnnotated(tree, mappedSource)\<close>: \<open>buildNode(tree.rootNode)\<close>.\<close>

definition buildAnnotated :: "(nat \<Rightarrow> nat) \<Rightarrow> (string \<Rightarrow> jsval option) \<Rightarrow> cst \<Rightarrow> fault + anode option" where
  "buildAnnotated mapClosest parseJson rootNode = buildNode mapClosest parseJson rootNode"

section \<open>YAML completion entry point\<close>

text \<open>
  What \<open>completionsFromGoodParseYAML\<close> takes from outside the sources at hand: the
  parser, the offset map of a candidate's mapped text, \<open>JSON.parse\<close>,
  \<open>core.rowColToIndex\<close>, \<open>core.schemaCompletions\<close>, \<open>localeCompare\<close>, and the depth
  allowed to the schema navigator.
\<close>

record env =
  ext_parser :: "string \<Rightarrow> cst"
  ext_mapClosest :: "parse_result \<Rightarrow> nat \<Rightarrow> nat"
  ext_parseJson :: "string \<Rightarrow> jsval option"
  ext_rowColToIndex :: "string \<Rightarrow> position \<Rightarrow> nat"
  ext_schemaCompletions :: "schema \<Rightarrow> completion list"
  ext_localeCompare :: "string \<Rightarrow> string \<Rightarrow> int"
  ext_depth :: nat

text \<open>What the function returns: \<open>false\<close>, or the value that \<open>completions\<close> resolved to.\<close>

datatype answer = NoResult | Completions "completion_list option"

text \<open>
  The word being typed: empty after a dash or a colon, else the text after the
  last space (\<open>line.split(" ").slice(-1)[0]\<close>).
\<close>

definition word_of :: "string \<Rightarrow> string" where
  "word_of line =
     (if line \<noteq> [] \<and> (last line = CHR ''-'' \<or> last line = CHR '':'') then []
      else rev (takeWhile (\<lambda>c. c \<noteq> CHR '' '') (rev line)))"

text \<open>
  A path element of the structural locator is a JavaScript value; the navigator
  uses it as a property name only, or not at all.
\<close>

definition seg_of :: "jsval \<Rightarrow> seg" where
  "seg_of v = (case v of JNum n \<Rightarrow> if 0 \<le> n then Index (nat n) else Key (js_string v)
                       | _ \<Rightarrow> Key (js_string v))"

text \<open>
  \<open>await completions({schema, path, word, indent, commentPrefix})\<close>, where the path
  may be the \<open>undefined\<close> of the indentation locator: then \<open>path.length\<close> is a
  TypeError, after the root's \<open>$id\<close> and \<open>$ref\<close> have been looked at.
\<close>

definition completions_at :: "env \<Rightarrow> schema \<Rightarrow> seg list option \<Rightarrow> string \<Rightarrow> nat \<Rightarrow> string
    \<Rightarrow> (fault + completion_list option) option" where
  "completions_at ext schema path word indent commentPrefix =
     (case path of
        None \<Rightarrow>
          (if ext_depth ext = 0 then None
           else (case resolve schema (register schema []) of
                   Inl e \<Rightarrow> Some (Inl (Nav e))
                 | Inr sub \<Rightarrow> Some (Inl TypeErr)))
      | Some p \<Rightarrow>
          (case completions (ext_localeCompare ext) (ext_schemaCompletions ext) (ext_depth ext)
                  schema p word indent commentPrefix of
             None \<Rightarrow> None
           | Some (Inl e) \<Rightarrow> Some (Inl (Nav e))
           | Some (Inr r) \<Rightarrow> Some (Inr r)))"

text \<open>
  \<open>rawCompletions.completions = rawCompletions.completions.filter((completion) =>
  completion.type === t); return rawCompletions\<close>; on \<open>null\<close> a TypeError.
\<close>

definition keep_type :: "completion_type \<Rightarrow> completion_list option \<Rightarrow> fault + answer" where
  "keep_type t rawCompletions =
     (case rawCompletions of
        None \<Rightarrow> Inl TypeErr
      | Some r \<Rightarrow> Inr (Completions (Some (r\<lparr>items := filter (\<lambda>c. c_type c = t) (items r)\<rparr>))))"

text \<open>
  The \<open>for ... of attemptParsesAtLine(context, parser)\<close> loop over the candidates that
  the generator has still to yield, and the \<open>return false\<close> after it. When the
  candidates are used up the generator is resumed, which is a TypeError if the
  cursor's row is outside the document.
\<close>

fun try_candidates :: "env \<Rightarrow> string \<Rightarrow> position \<Rightarrow> schema \<Rightarrow> string \<Rightarrow> string \<Rightarrow> nat \<Rightarrow> search_end
    \<Rightarrow> parse_result list \<Rightarrow> (fault + answer) option" where
  "try_candidates ext line pos schema commentPrefix word indent fin [] =
     (if fin = RowOutside then Some (Inl TypeErr) else Some (Inr NoResult))"
| "try_candidates ext line pos schema commentPrefix word indent fin (parseResult # rest) =
     (if length (trim (js_substring line 0 (length line - deletions parseResult))) = 0 then
        (case locateFromIndentation (js_substring line 0 (deletions parseResult))
                (code parseResult)
                \<lparr>row = row pos, column = column pos - int (deletions parseResult)\<rparr> of
           None \<Rightarrow> None
         | Some (Inl e) \<Rightarrow> Some (Inl e)
         | Some (Inr path) \<Rightarrow>
             (case completions_at ext schema path word indent commentPrefix of
                None \<Rightarrow> None
              | Some (Inl e) \<Rightarrow> Some (Inl e)
              | Some (Inr rawCompletions) \<Rightarrow> Some (keep_type TKey rawCompletions)))
      else
        (case buildAnnotated (ext_mapClosest ext parseResult) (ext_parseJson ext)
                (parse parseResult) of
           Inl e \<Rightarrow> Some (Inl e)
         | Inr None \<Rightarrow> Some (Inl TypeErr)
         | Inr (Some doc) \<Rightarrow>
             if node_end doc \<noteq> length (code parseResult) then
               try_candidates ext line pos schema commentPrefix word indent fin rest
             else
               (let index = ext_rowColToIndex ext (code parseResult)
                              \<lparr>row = row pos, column = column pos - int (deletions parseResult)\<rparr>
                in case locateCursor doc index of
                     Inl e \<Rightarrow> Some (Inl (Locate e))
                   | Inr located \<Rightarrow>
                       (let path = path_value located
                              @ (if withError located \<and> column pos \<ge> int (length line)
                                    \<and> CHR '':'' \<in> set line
                                 then [JStr (takeWhile (\<lambda>c. c \<noteq> CHR '':'') (trim line))]
                                 else [])
                        in case completions_at ext schema (Some (map seg_of path)) word indent
                                  commentPrefix of
                             None \<Rightarrow> None
                           | Some (Inl e) \<Rightarrow> Some (Inl e)
                           | Some (Inr rawCompletions) \<Rightarrow>
                               if CHR '':'' \<in> set line then Some (keep_type TValue rawCompletions)
                               else Some (Inr (Completions rawCompletions))))))"

text \<open>
  \<open>completionsFromGoodParseYAML(context)\<close> for the context \<open>{line, code, position,
  schema, commentPrefix}\<close>.
\<close>

definition completionsFromGoodParseYAML :: "env \<Rightarrow> string \<Rightarrow> string \<Rightarrow> position \<Rightarrow> schema
    \<Rightarrow> string \<Rightarrow> (fault + answer) option" where
  "completionsFromGoodParseYAML ext line source pos schema commentPrefix =
     (case strip_fences True source (row pos) of
        None \<Rightarrow> Some (Inr NoResult)
      | Some stripped \<Rightarrow>
          (let word = word_of line in
           if length (trim line) = 0 then
             (case locateFromIndentation line stripped pos of
                None \<Rightarrow> None
              | Some (Inl e) \<Rightarrow> Some (Inl e)
              | Some (Inr path) \<Rightarrow>
                  (case completions_at ext schema path word (length line) commentPrefix of
                     None \<Rightarrow> None
                   | Some (Inl e) \<Rightarrow> Some (Inl e)
                   | Some (Inr rawCompletions) \<Rightarrow> Some (keep_type TKey rawCompletions)))
           else
             (let indent = length (trimEnd line) - length (trim line);
                  found = attemptParsesAtLine (ext_parser ext) stripped pos
              in try_candidates ext line pos schema commentPrefix word indent
                   (ending found) (yielded found))))"

text \<open>
  The candidates that the loop passes over (\<open>continue\<close>): the cut line is not blank
  and the annotation does not end at the end of the candidate's text.
\<close>

definition blank_cut :: "string \<Rightarrow> parse_result \<Rightarrow> bool" where
  "blank_cut line c \<longleftrightarrow> length (trim (js_substring line 0 (length line - deletions c))) = 0"

definition passed_over :: "env \<Rightarrow> string \<Rightarrow> parse_result \<Rightarrow> bool" where
  "passed_over ext line c \<longleftrightarrow>
     \<not> blank_cut line c \<and>
     (case buildAnnotated (ext_mapClosest ext c) (ext_parseJson ext) (parse c) of
        Inr (Some doc) \<Rightarrow> node_end doc \<noteq> length (code c)
      | _ \<Rightarrow> False)"

text \<open>
  Concrete collaborators: offsets counted from the start of the line, candidates
  that are the property names of an object as keys and the two values of a
  \<open>boolean\<close>, and a parser that gives every text the tree of \<open>a: \<close>.
\<close>

definition offset_index :: "string \<Rightarrow> position \<Rightarrow> nat" where
  "offset_index text pos = range_start (rangedLines text ! nat (row pos)) + nat (column pos)"

definition keys_and_booleans :: "schema \<Rightarrow> completion list" where
  "keys_and_booleans s =
     (case shape s of
        Scalar t \<Rightarrow>
          (if t = ''boolean''
           then [\<lparr>c_value = ''true'', c_type = TValue, c_schema = s, suggest_on_accept = False\<rparr>,
                 \<lparr>c_value = ''false'', c_type = TValue, c_schema = s, suggest_on_accept = False\<rparr>]
           else [])
      | _ \<Rightarrow> property_keys s)"

definition key_colon_tree :: cst where
  "key_colon_tree =
     Node ''stream'' 0 3 ''a: '' [Node ''document'' 0 3 ''a: '' [Node ''block_node'' 0 3 ''a: ''
       [Node ''block_mapping'' 0 3 ''a: '' [Node ''block_mapping_pair'' 0 3 ''a: ''
          [Node ''flow_node'' 0 1 ''a'' [Node ''plain_scalar'' 0 1 ''a'' []],
           Node '':'' 1 2 '':'' []]]]]]"

definition bracket_env :: env where
  "bracket_env = \<lparr>ext_parser = bracket_parser, ext_mapClosest = (\<lambda>c n. n),
     ext_parseJson = (\<lambda>s. None), ext_rowColToIndex = offset_index,
     ext_schemaCompletions = keys_and_booleans, ext_localeCompare = lex_compare,
     ext_depth = 3\<rparr>"

definition key_colon_env :: env where
  "key_colon_env = bracket_env\<lparr>ext_parser := (\<lambda>text. key_colon_tree)\<rparr>"

definition flag_schema :: schema where
  "flag_schema = Schema None None
     (Object (Some [(''a'', Schema None None (Scalar ''boolean''))]))"

section \<open>Validator cache\<close>

text \<open>
  \<open>yamlValidators\<close> maps a schema name to its validator. The validator class
  \<open>core.YAMLSchema\<close> is not part of the sources at hand: its constructor is a
  parameter, and the registry counts how often it is called.
\<close>

record 'v registry =
  yamlValidators :: "(string \<times> 'v) list"
  constructions :: nat

text \<open>
  What \<open>getValidator\<close> returns: a validator, or, for a schema name that is the name
  of a member that every object inherits, that member: \<open>yamlValidators\<close> is a plain
  object and \<open>yamlValidators[schemaName]\<close> is then truthy with no validator stored.
\<close>

datatype 'v cached = Validator 'v | InheritedMember string

text \<open>\<open>getValidator(context)\<close> for the context \<open>{schema, schemaName}\<close>.\<close>

definition getValidator :: "(schema \<Rightarrow> 'v) \<Rightarrow> schema \<Rightarrow> string \<Rightarrow> 'v registry
    \<Rightarrow> 'v cached \<times> 'v registry" where
  "getValidator construct schema schemaName reg =
     (case map_of (yamlValidators reg) schemaName of
        Some validator \<Rightarrow> (Validator validator, reg)
      | None \<Rightarrow>
          if schemaName \<in> set inherited_members then (InheritedMember schemaName, reg)
          else
            (let validator = construct schema
             in (Validator validator,
                 reg\<lparr>yamlValidators := (schemaName, validator) # yamlValidators reg,
                     constructions := constructions reg + 1\<rparr>)))"

chapter \<open>Properties\<close>

section \<open>Structural cursor locator: sequences\<close>

lemma locate_sequence_skip:
  "\<forall>x \<in> set pre. \<not> covers position x \<and> \<not> starts_after position x \<Longrightarrow>
   locate_sequence position (pre @ rest) i pathSoFar failedLast =
   locate_sequence position rest (i + length pre) pathSoFar failedLast"
  by (induction pre arbitrary: i) (auto simp: covers_def starts_after_def)

lemma locate_is_sequence:
  "is_sequence node \<Longrightarrow>
   locate position node pathSoFar failedLast =
   locate_sequence position (components node) 0 pathSoFar failedLast"
  by (cases node) (auto simp: is_sequence_def)

text \<open>
  C4, as the code has it. In a sequence node the locator scans the items in order.
  At the first item that contains the offset or starts after it (no earlier item
  does either): if the item contains the offset, the locator recurses into it with
  the item's index prefixed to the path; if the item only starts after the offset,
  the locator returns without recursing, the path so far unchanged when that item
  is the first one, and the path so far with the preceding index prefixed
  otherwise. When no item contains the offset or starts after it (the offset is
  past the last item, or the sequence is empty) the locator raises the internal
  error "cursor outside bounds".
\<close>

theorem locate_sequence_first_hit:
  "is_sequence node \<longrightarrow>
   (\<forall>pre c post.
      components node = pre @ c # post \<and>
      (\<forall>x \<in> set pre. \<not> covers position x \<and> \<not> starts_after position x) \<longrightarrow>
      (covers position c \<longrightarrow>
         locate position node pathSoFar failedLast =
         locate position c (JArr [JNum (int (length pre)), pathSoFar]) failedLast) \<and>
      (\<not> covers position c \<and> starts_after position c \<longrightarrow>
         locate position node pathSoFar failedLast =
         Inr (if pre = [] then pathSoFar
              else JArr [JNum (int (length pre) - 1), pathSoFar], failedLast))) \<and>
   ((\<forall>x \<in> set (components node). \<not> covers position x \<and> \<not> starts_after position x) \<longrightarrow>
      locate position node pathSoFar failedLast = Inl CursorOutsideBounds)"
proof (intro impI conjI allI)
  fix pre c post
  assume seq: "is_sequence node"
    and split: "components node = pre @ c # post \<and>
      (\<forall>x \<in> set pre. \<not> covers position x \<and> \<not> starts_after position x)"
  have step: "locate position node pathSoFar failedLast =
      locate_sequence position (c # post) (length pre) pathSoFar failedLast"
    using seq split by (simp add: locate_is_sequence locate_sequence_skip)
  {
    assume "covers position c"
    then show "locate position node pathSoFar failedLast =
         locate position c (JArr [JNum (int (length pre)), pathSoFar]) failedLast"
      unfolding step by (simp add: covers_def)
  }
  {
    assume "\<not> covers position c \<and> starts_after position c"
    then show "locate position node pathSoFar failedLast =
         Inr (if pre = [] then pathSoFar
              else JArr [JNum (int (length pre) - 1), pathSoFar], failedLast)"
      unfolding step by (simp add: covers_def starts_after_def)
  }
next
  assume seq: "is_sequence node"
    and none: "\<forall>x \<in> set (components node). \<not> covers position x \<and> \<not> starts_after position x"
  have "locate_sequence position (components node @ []) 0 pathSoFar failedLast =
      locate_sequence position [] (0 + length (components node)) pathSoFar failedLast"
    using none by (rule locate_sequence_skip)
  then show "locate position node pathSoFar failedLast = Inl CursorOutsideBounds"
    using seq by (simp add: locate_is_sequence)
qed

text \<open>
  The theorem at the two-item sequence: offset 3 lies in item 0, offset 5 lies
  between the items, offset 1 before the first item and offset 10 past the last.
\<close>

theorem locate_sequence_first_hit_witness:
  "is_sequence demo_seq \<and>
   locate 3 demo_seq (JArr []) False = Inr (JArr [JStr ''a'', JArr [JNum 0, JArr []]], False) \<and>
   locate 5 demo_seq (JArr []) False = Inr (JArr [JNum 0, JArr []], False) \<and>
   locate 1 demo_seq (JArr []) False = Inr (JArr [], False) \<and>
   locate 10 demo_seq (JArr []) False = Inl CursorOutsideBounds"
  using locate_sequence_first_hit [of demo_seq 3 "JArr []" False]
    locate_sequence_first_hit [of demo_seq 5 "JArr []" False]
    locate_sequence_first_hit [of demo_seq 1 "JArr []" False]
    locate_sequence_first_hit [of demo_seq 10 "JArr []" False]
  by (simp add: demo_seq_def is_sequence_def covers_def starts_after_def)

text \<open>
  C4 as stated fails on the two-item sequence. Before the first item (offset 1)
  no index is appended; between the items (offset 5) the locator does not recurse
  into item 1, which is the first to start after the offset, and returns index 0;
  past the last item (offset 10) it raises.
\<close>

theorem locateCursor_sequence_counterexample:
  "locateCursor demo_seq 1 = Inr \<lparr>withError = False, path_value = []\<rparr> \<and>
   locateCursor demo_seq 5 = Inr \<lparr>withError = False, path_value = [JNum 0]\<rparr> \<and>
   locateCursor demo_seq 10 = Inl CursorOutsideBounds"
  by (simp add: locateCursor_def demo_seq_def)

section \<open>Schema navigator\<close>

subsection \<open>The depth allowed only cuts a run short\<close>

lemma map_nav_cong_Some:
  "(\<And>s r y. s \<in> set ss \<Longrightarrow> f s r = Some y \<Longrightarrow> g s r = Some y) \<Longrightarrow>
   map_nav f ss refs = Some y \<Longrightarrow> map_nav g ss refs = Some y"
proof (induction ss arbitrary: refs y)
  case Nil
  then show ?case by simp
next
  case (Cons a ss)
  show ?case
  proof (cases "f a refs")
    case None
    with Cons.prems(2) show ?thesis by simp
  next
    case (Some v)
    then have g: "g a refs = Some v" using Cons.prems(1) by simp
    show ?thesis
    proof (cases v)
      case (Inl e)
      with Some g Cons.prems(2) show ?thesis by simp
    next
      case (Inr p)
      obtain r refs' where p: "p = (r, refs')" by (cases p)
      show ?thesis
      proof (cases "map_nav f ss refs'")
        case None
        with Some Inr p Cons.prems(2) show ?thesis by simp
      next
        case (Some w)
        have "map_nav g ss refs' = Some w"
          using Cons.IH [OF _ Some] Cons.prems(1) by simp
        with Some \<open>f a refs = Some v\<close> g Inr p Cons.prems(2) show ?thesis by simp
      qed
    qed
  qed
qed

lemma inner_depth_Suc:
  "inner depth path s index refs = Some y \<Longrightarrow> inner (Suc depth) path s index refs = Some y"
proof (induction depth arbitrary: s index refs y)
  case 0
  then show ?case by simp
next
  case (Suc depth)
  have branches: "map_nav (\<lambda>ss. inner (Suc depth) path ss index) bs r = Some z"
    if "map_nav (\<lambda>ss. inner depth path ss index) bs r = Some z" for bs r z
    using that by (rule map_nav_cong_Some [rotated]) (erule Suc.IH)
  show ?case
    using Suc.prems
    apply (subst inner.simps)
    apply (subst (asm) inner.simps)
    apply (auto simp del: inner.simps simp: Let_def split: sum.splits shape.splits option.splits if_splits prod.splits
        dest!: branches intro: Suc.IH)
    done
qed

lemma inner_depth_mono:
  "inner depth path s index refs = Some y \<Longrightarrow> inner (depth + k) path s index refs = Some y"
  by (induction k) (auto dest: inner_depth_Suc)

subsection \<open>Unresolved references\<close>

lemma map_nav_error:
  "map_nav f pre refs = Some (Inr (rs, refs2)) \<Longrightarrow> f b refs2 = Some (Inl e) \<Longrightarrow>
   map_nav f (pre @ b # post) refs = Some (Inl e)"
  by (induction pre arbitrary: refs rs)
     (auto split: option.splits sum.splits prod.splits)

lemma subcall_error:
  "subcall path c c' \<Longrightarrow> run path c' = Some (Inl e) \<Longrightarrow> run path c = Some (Inl e)"
  by (induction rule: subcall.induct) (auto simp: run_def Let_def map_nav_error)

lemma subcalls_error:
  "(subcall path)\<^sup>*\<^sup>* c c' \<Longrightarrow> run path c' = Some (Inl e) \<Longrightarrow> run path c = Some (Inl e)"
  by (induction rule: converse_rtranclp_induct) (auto intro: subcall_error)

lemma a_not_inherited: "''a'' \<notin> set inherited_members"
  by code_simp

lemma missing_not_inherited: "''missing'' \<notin> set inherited_members"
  by code_simp

lemma obj_get_undefined:
  "map_of obj name = None \<Longrightarrow> name \<notin> set inherited_members \<Longrightarrow> obj_get obj name = None"
  by (simp add: obj_get_def)

lemma inner_unresolved:
  "schema_ref s = Some r \<Longrightarrow> r \<noteq> [] \<Longrightarrow> map_of (register s refs) r = None \<Longrightarrow>
   r \<notin> set inherited_members \<Longrightarrow>
   inner (Suc d) path s index refs = Some (Inl (RefUndefined r))"
  by (simp add: resolve_def obj_get_undefined)

text \<open>
  A reference that names an inherited member is not unresolved for the code:
  the lookup gives the member, nothing is thrown, and with a path left the
  navigation ends in no match.
\<close>

lemma navigateSchema_inherited_ref:
  "navigateSchema 1 (Schema None (Some ''toString'') (Scalar ''string'')) [Key ''a''] =
     Some (Inr [])"
  by code_simp

text \<open>
  C2, as the code has it. When \<open>navigateSchema\<close> reaches a schema node whose \<open>$ref\<close>
  names no identity registered so far (the node's own \<open>$id\<close> counts), and the name
  is not that of a member which every object inherits, and no identity
  \<open>__proto__\<close> has been registered, the call of \<open>inner\<close> on that node throws the
  internal error "schema reference undefined", and the error ends the whole
  navigation: \<open>navigateSchema\<close> throws it as well and no result, empty or not, is
  returned. This holds for every root, path, node reached and set of bindings.
\<close>

theorem navigateSchema_unresolved_ref_raises:
  "(subcall path)\<^sup>*\<^sup>* (depth, root, 0, []) (Suc d, s, index, refs) \<and>
   schema_ref s = Some r \<and> r \<noteq> [] \<and> map_of (register s refs) r = None \<and>
   r \<notin> set inherited_members \<and> map_of (register s refs) ''__proto__'' = None \<longrightarrow>
   inner (Suc d) path s index refs = Some (Inl (RefUndefined r)) \<and>
   navigateSchema depth root path = Some (Inl (RefUndefined r))"
proof (intro impI, elim conjE)
  assume reach: "(subcall path)\<^sup>*\<^sup>* (depth, root, 0, []) (Suc d, s, index, refs)"
    and r: "schema_ref s = Some r" "r \<noteq> []" "map_of (register s refs) r = None"
      "r \<notin> set inherited_members"
  have here: "inner (Suc d) path s index refs = Some (Inl (RefUndefined r))"
    using r by (rule inner_unresolved)
  then have "run path (Suc d, s, index, refs) = Some (Inl (RefUndefined r))"
    by (simp add: run_def)
  with reach have "run path (depth, root, 0, []) = Some (Inl (RefUndefined r))"
    by (rule subcalls_error)
  then have "navigateSchema depth root path = Some (Inl (RefUndefined r))"
    by (simp add: run_def navigateSchema_def)
  with here show "inner (Suc d) path s index refs = Some (Inl (RefUndefined r)) \<and>
    navigateSchema depth root path = Some (Inl (RefUndefined r))" by simp
qed

text \<open>
  The theorem at an \<open>anyOf\<close> whose first branch matches the path and whose second
  branch carries the reference \<open>missing\<close>.
\<close>

theorem navigateSchema_unresolved_ref_raises_witness:
  "(subcall [Key ''a''])\<^sup>*\<^sup>* (3, any_dangling, 0, []) (Suc 1, dangling, 0, [(''root'', any_dangling)]) \<and>
   schema_ref dangling = Some ''missing'' \<and>
   map_of (register dangling [(''root'', any_dangling)]) ''missing'' = None \<and>
   ''missing'' \<notin> set inherited_members \<and>
   map_of (register dangling [(''root'', any_dangling)]) ''__proto__'' = None \<and>
   navigateSchema 3 any_dangling [Key ''a''] = Some (Inl (RefUndefined ''missing''))"
proof -
  have "subcall [Key ''a''] (Suc 2, any_dangling, 0, [])
          (2, dangling, 0, [(''root'', any_dangling)])"
    by (rule subcall.anyOf_branch [where pre = "[Schema None None (Object (Some [(''a'', str_schema)]))]"
          and post = "[]" and sub = any_dangling
          and rs = "[[Item str_schema]]"])
       (simp_all add: any_dangling_def resolve_def register_def segment_key_def obj_get_def
      a_not_inherited missing_not_inherited dangling_def
          str_schema_def numeral_2_eq_2 obj_get_def)
  then have reach: "(subcall [Key ''a''])\<^sup>*\<^sup>* (3, any_dangling, 0, [])
      (Suc 1, dangling, 0, [(''root'', any_dangling)])"
    by (simp add: numeral_3_eq_3 numeral_2_eq_2)
  have hyps: "schema_ref dangling = Some ''missing''"
    "map_of (register dangling [(''root'', any_dangling)]) ''missing'' = None"
    "map_of (register dangling [(''root'', any_dangling)]) ''__proto__'' = None"
    by (simp_all add: dangling_def register_def)
  show ?thesis
    using reach hyps missing_not_inherited
      navigateSchema_unresolved_ref_raises [of "[Key ''a'']" 3 any_dangling 1 dangling 0
        "[(''root'', any_dangling)]" "''missing''"]
    by simp
qed

text \<open>
  C2 as stated fails: on a dangling reference the navigation raises, both when
  the node is a branch of an \<open>anyOf\<close> next to a matching branch and when it is the
  root. The claim asks for an empty result and no error.
\<close>

theorem navigateSchema_unresolved_ref_counterexample:
  "navigateSchema 3 any_dangling [Key ''a''] = Some (Inl (RefUndefined ''missing'')) \<and>
   navigateSchema 1 dangling [Key ''a''] = Some (Inl (RefUndefined ''missing''))"
  by (simp add: navigateSchema_def any_dangling_def dangling_def str_schema_def
      resolve_def register_def segment_key_def obj_get_def
      a_not_inherited missing_not_inherited numeral_3_eq_3 numeral_2_eq_2)

subsection \<open>The \<open>oneOf\<close> rule\<close>

lemma flat_nest_append: "flat_nest (xs @ ys) = flat_nest xs @ flat_nest ys"
  by (induction xs rule: flat_nest.induct) auto

lemma flat_nest_Nested: "flat_nest (map Nested rs) = concat (map flat_nest rs)"
  by (induction rs) auto

lemma flat_nest_Item: "flat_nest (map Item xs) = xs"
  by (induction xs) auto

lemma concat_hits:
  "concat (map flat_nest rs) = concat (map flat_nest (filter (\<lambda>r. flat_nest r \<noteq> []) rs))"
  by (induction rs) auto

lemma hits_many:
  assumes "length (filter (\<lambda>r. flat_nest r \<noteq> []) rs) \<noteq> 1"
  shows "length (concat (map flat_nest rs)) \<noteq> 1"
proof (cases "filter (\<lambda>r. flat_nest r \<noteq> []) rs")
  case Nil
  have e: "concat (map flat_nest rs) = concat (map flat_nest [])"
    by (subst concat_hits) (simp only: Nil)
  show ?thesis unfolding e by simp
next
  case (Cons a as)
  with assms obtain b bs where as: "as = b # bs" by (cases as) auto
  have "a \<in> set (filter (\<lambda>r. flat_nest r \<noteq> []) rs)" "b \<in> set (filter (\<lambda>r. flat_nest r \<noteq> []) rs)"
    using Cons as by simp_all
  then have "flat_nest a \<noteq> []" "flat_nest b \<noteq> []" by simp_all
  then have "length (flat_nest a) \<ge> 1" "length (flat_nest b) \<ge> 1"
    by (simp_all add: Suc_leI)
  moreover have e: "concat (map flat_nest rs) = flat_nest a @ flat_nest b @ concat (map flat_nest bs)"
    by (subst concat_hits) (simp add: Cons as)
  ultimately show ?thesis unfolding e by simp
qed

lemma inner_oneOf_found:
  assumes "resolve s (register s refs) = Inr sub" "shape sub = OneOf branches"
    "index \<noteq> length path"
    "map_nav (\<lambda>ss. inner depth path ss index) branches (register s refs) = Some (Inr (rs, refs2))"
  shows "inner (Suc depth) path s index refs =
    Some (Inr (if length (concat (map flat_nest rs)) = 1
               then map Item (concat (map flat_nest rs)) else [], refs2))"
  using assms by (simp add: Let_def flat_nest_Nested)

text \<open>
  C3, as the code has it. At a \<open>oneOf\<close> node where the path is not yet used up, the
  navigator goes into every branch in order. If every branch returns, the node
  returns, and what it returns is decided by the number of schemas that all the
  branches found together: exactly one schema in total gives that schema, any
  other total gives no match. So no match is returned when no branch or more than
  one branch has a non-empty result; when exactly one branch has a non-empty
  result, that result is returned if it holds a single schema, and no match is
  returned if it holds several. At a node where the path is used up, a \<open>oneOf\<close> or
  any other, the node itself is returned (after its reference is resolved) and no
  branch is looked at.
\<close>

theorem inner_oneOf:
  "(resolve s (register s refs) = Inr sub \<and> shape sub = OneOf branches \<and>
    index \<noteq> length path \<and>
    map_nav (\<lambda>ss. inner depth path ss index) branches (register s refs) = Some (Inr (rs, refs2)) \<longrightarrow>
    (\<exists>out. inner (Suc depth) path s index refs = Some (Inr (out, refs2)) \<and>
       flat_nest out =
         (if length (concat (map flat_nest rs)) = 1 then concat (map flat_nest rs) else []) \<and>
       (length (filter (\<lambda>r. flat_nest r \<noteq> []) rs) \<noteq> 1 \<longrightarrow> out = []) \<and>
       (\<forall>r. filter (\<lambda>r. flat_nest r \<noteq> []) rs = [r] \<longrightarrow>
          flat_nest out = (if length (flat_nest r) = 1 then flat_nest r else [])))) \<and>
   (resolve s (register s refs) = Inr sub \<and> index = length path \<longrightarrow>
      inner (Suc depth) path s index refs = Some (Inr ([Item sub], register s refs)))"
proof (rule conjI)
  show "resolve s (register s refs) = Inr sub \<and> index = length path \<longrightarrow>
      inner (Suc depth) path s index refs = Some (Inr ([Item sub], register s refs))"
    by (simp add: Let_def)
next
  show "resolve s (register s refs) = Inr sub \<and> shape sub = OneOf branches \<and>
    index \<noteq> length path \<and>
    map_nav (\<lambda>ss. inner depth path ss index) branches (register s refs) = Some (Inr (rs, refs2)) \<longrightarrow>
    (\<exists>out. inner (Suc depth) path s index refs = Some (Inr (out, refs2)) \<and>
       flat_nest out =
         (if length (concat (map flat_nest rs)) = 1 then concat (map flat_nest rs) else []) \<and>
       (length (filter (\<lambda>r. flat_nest r \<noteq> []) rs) \<noteq> 1 \<longrightarrow> out = []) \<and>
       (\<forall>r. filter (\<lambda>r. flat_nest r \<noteq> []) rs = [r] \<longrightarrow>
          flat_nest out = (if length (flat_nest r) = 1 then flat_nest r else [])))"
  proof (intro impI, elim conjE)
  let ?found = "concat (map flat_nest rs)"
  let ?out = "if length ?found = 1 then map Item ?found else []"
  assume a: "resolve s (register s refs) = Inr sub" "shape sub = OneOf branches"
    "index \<noteq> length path"
    "map_nav (\<lambda>ss. inner depth path ss index) branches (register s refs) = Some (Inr (rs, refs2))"
  have run: "inner (Suc depth) path s index refs = Some (Inr (?out, refs2))"
    using a by (rule inner_oneOf_found)
  have flat: "flat_nest ?out = (if length ?found = 1 then ?found else [])"
    by (simp add: flat_nest_Item)
  have none: "length (filter (\<lambda>r. flat_nest r \<noteq> []) rs) \<noteq> 1 \<longrightarrow> ?out = []"
    using hits_many [of rs] by simp
  have one: "\<forall>r. filter (\<lambda>r. flat_nest r \<noteq> []) rs = [r] \<longrightarrow>
      flat_nest ?out = (if length (flat_nest r) = 1 then flat_nest r else [])"
  proof (intro allI impI)
    fix r assume "filter (\<lambda>r. flat_nest r \<noteq> []) rs = [r]"
    then have "concat (map flat_nest (filter (\<lambda>r. flat_nest r \<noteq> []) rs)) = flat_nest r"
      by simp
    then have "?found = flat_nest r" by (subst concat_hits)
    then show "flat_nest ?out = (if length (flat_nest r) = 1 then flat_nest r else [])"
      by (simp add: flat_nest_Item)
  qed
  show "\<exists>out. inner (Suc depth) path s index refs = Some (Inr (out, refs2)) \<and>
      flat_nest out = (if length ?found = 1 then ?found else []) \<and>
      (length (filter (\<lambda>r. flat_nest r \<noteq> []) rs) \<noteq> 1 \<longrightarrow> out = []) \<and>
      (\<forall>r. filter (\<lambda>r. flat_nest r \<noteq> []) rs = [r] \<longrightarrow>
         flat_nest out = (if length (flat_nest r) = 1 then flat_nest r else []))"
    using run flat none one by blast
  qed
qed

text \<open>
  The theorem at a \<open>oneOf\<close> of two objects, of which only the first has the key, and
  at the same \<open>oneOf\<close> with the empty path.
\<close>

lemmas demo_schema_defs = one_of_ab_def one_of_any_def obj_a_str_def obj_a_num_def obj_b_num_def
  str_schema_def num_schema_def

theorem inner_oneOf_witness:
  "resolve one_of_ab (register one_of_ab []) = Inr one_of_ab \<and>
   shape one_of_ab = OneOf [obj_a_str, obj_b_num] \<and>
   map_nav (\<lambda>ss. inner 2 [Key ''a''] ss 0) [obj_a_str, obj_b_num] (register one_of_ab []) =
     Some (Inr ([[Item str_schema], []], [])) \<and>
   (\<exists>out. inner (Suc 2) [Key ''a''] one_of_ab 0 [] = Some (Inr (out, [])) \<and>
      flat_nest out = [str_schema]) \<and>
   inner (Suc 2) [] one_of_ab 0 [] = Some (Inr ([Item one_of_ab], register one_of_ab []))"
proof -
  have h: "resolve one_of_ab (register one_of_ab []) = Inr one_of_ab"
    "shape one_of_ab = OneOf [obj_a_str, obj_b_num]"
    "(0::nat) \<noteq> length [Key ''a'']"
    "map_nav (\<lambda>ss. inner 2 [Key ''a''] ss 0) [obj_a_str, obj_b_num] (register one_of_ab []) =
       Some (Inr ([[Item str_schema], []], []))"
    by (simp_all add: demo_schema_defs resolve_def register_def segment_key_def obj_get_def
      a_not_inherited missing_not_inherited numeral_2_eq_2
        starts_with_def Let_def)
  have "\<exists>out. inner (Suc 2) [Key ''a''] one_of_ab 0 [] = Some (Inr (out, [])) \<and>
      flat_nest out =
        (if length (concat (map flat_nest [[Item str_schema], []])) = 1
         then concat (map flat_nest [[Item str_schema], []]) else [])"
    using h conjunct1 [OF inner_oneOf [of one_of_ab "[]" one_of_ab "[obj_a_str, obj_b_num]" 0
          "[Key ''a'']" 2 "[[Item str_schema], []]" "[]"]]
    by blast
  then have found: "\<exists>out. inner (Suc 2) [Key ''a''] one_of_ab 0 [] = Some (Inr (out, [])) \<and>
      flat_nest out = [str_schema]"
    by simp
  have "(0::nat) = length ([] :: seg list)"
    by simp
  with h(1) have used_up: "inner (Suc 2) [] one_of_ab 0 [] =
      Some (Inr ([Item one_of_ab], register one_of_ab []))"
    using conjunct2 [OF inner_oneOf [of one_of_ab "[]" one_of_ab "[obj_a_str, obj_b_num]" 0
          "[]" 2 "[[Item str_schema], []]" "[]"]]
    by blast
  from h found used_up show ?thesis by blast
qed

text \<open>
  C3 as stated fails. With the path \<open>a\<close>, a \<open>oneOf\<close> whose first branch finds two
  schemas (an \<open>anyOf\<close> of two objects with the key) and whose second branch finds
  none has exactly one branch with a non-empty result, and returns no match. With
  the empty path a \<open>oneOf\<close> without branches returns itself.
\<close>

theorem navigateSchema_oneOf_counterexample:
  "navigateSchema 4 (Schema None None (AnyOf [obj_a_str, obj_a_num])) [Key ''a''] =
     Some (Inr [str_schema, num_schema]) \<and>
   navigateSchema 4 obj_b_num [Key ''a''] = Some (Inr []) \<and>
   navigateSchema 4 one_of_any [Key ''a''] = Some (Inr []) \<and>
   navigateSchema 4 (Schema None None (OneOf [])) [] = Some (Inr [Schema None None (OneOf [])])"
  by (simp add: navigateSchema_def demo_schema_defs resolve_def register_def segment_key_def obj_get_def
      a_not_inherited missing_not_inherited
      numeral_2_eq_2 numeral_3_eq_3 eval_nat_numeral starts_with_def Let_def)

section \<open>Lines and ranges\<close>










lemma length_ranged_from: "length (ranged_from offset ls) = length ls"
  by (induction ls arbitrary: offset) auto

lemma substring_ranged_from: "map substring (ranged_from offset ls) = ls"
  by (induction ls arbitrary: offset) auto




lemma js_substring_take: "js_substring s 0 e = take e s"
  by (cases "e \<le> length s") (simp_all add: js_substring_def Let_def min_def)







section \<open>Reparse search\<close>

lemma shrink_Suc:
  "shrink parser source cl r line (Suc cc) d =
   ((if clean parser (mappedString source (candidate_chunks cl r line cc))
     then [candidate parser (mappedString source (candidate_chunks cl r line cc)) (d + 1)]
     else []) @ fst (shrink parser source cl r line cc (d + 1)),
    snd (shrink parser source cl r line cc (d + 1)) + 1)"
  by (simp add: Let_def clean_def candidate_def split: prod.splits)

lemma shrink_parses: "snd (shrink parser source cl r line cc d) = cc"
  by (induction cc arbitrary: d) (simp_all add: shrink_Suc del: shrink.simps(2))

lemma shrink_yielded:
  "fst (shrink parser source cl r line cc d) =
   map (\<lambda>k. candidate parser (mappedString source (candidate_chunks cl r line (cc - k))) (d + k))
     (filter (\<lambda>k. clean parser (mappedString source (candidate_chunks cl r line (cc - k))))
        [1 ..< Suc cc])"
proof (induction cc arbitrary: d)
  case 0
  then show ?case by simp
next
  case (Suc cc)
  have shift: "[1 ..< Suc (Suc cc)] = 1 # map Suc [1 ..< Suc cc]"
    by (metis One_nat_def map_Suc_upt upt_conv_Cons zero_less_Suc Suc_less_eq)
  show ?case
    unfolding shift shrink_Suc
    by (simp add: Suc.IH filter_map comp_def del: upt_Suc shrink.simps(2))
qed

lemma substring_rangedLines:
  "r < length (lines_of source) \<Longrightarrow> substring (rangedLines source ! r) = lines_of source ! r"
  using substring_ranged_from [of 0 "lines_of source"]
  by (metis length_ranged_from nth_map rangedLines_def)

lemma length_rangedLines: "length (rangedLines source) = length (lines_of source)"
  by (simp add: rangedLines_def length_ranged_from)

lemma attempt_inside:
  assumes "0 \<le> row pos" "nat (row pos) < length (lines_of source)"
  shows "attemptParsesAtLine parser source pos =
    \<lparr>yielded = (if clean parser source then [candidate parser source 0] else [])
        @ map (\<lambda>k. candidate parser (truncated source (nat (row pos)) (nat (column pos) - k)) k)
            (filter (\<lambda>k. clean parser (truncated source (nat (row pos)) (nat (column pos) - k)))
               [1 ..< Suc (nat (column pos))]),
     parses = 1 + nat (column pos), ending = Exhausted\<rparr>"
proof -
  have "\<not> (row pos < 0 \<or> length (rangedLines source) \<le> nat (row pos))"
    using assms by (simp add: length_rangedLines)
  then show ?thesis
    using shrink_yielded [of parser source "rangedLines source" "nat (row pos)"
        "lines_of source ! nat (row pos)" "nat (column pos)" 0]
      shrink_parses [of parser source "rangedLines source" "nat (row pos)"
        "lines_of source ! nat (row pos)" "nat (column pos)" 0]
    by (simp add: attemptParsesAtLine_def Let_def substring_rangedLines [OF assms(2)]
        clean_def candidate_def truncated_def case_prod_beta del: upt_Suc)
qed

lemma attempt_outside:
  assumes "row pos < 0 \<or> length (lines_of source) \<le> nat (row pos)"
  shows "attemptParsesAtLine parser source pos =
    \<lparr>yielded = (if clean parser source then [candidate parser source 0] else []),
     parses = 1, ending = RowOutside\<rparr>"
  using assms
  by (simp add: attemptParsesAtLine_def Let_def length_rangedLines clean_def candidate_def)





text \<open>
  C1, as the code has it. For a document whose untouched text parses cleanly the
  search yields that text with no deletions first, and this is the only candidate
  without deletions. The search does not stop there: for a cursor inside the
  document it goes on to cut the cursor's line and yields, with \<open>k\<close> deletions,
  every one of the cuts by \<open>k = 1, ..., column\<close> characters that parses cleanly.
  When the column is 0 or less (or the cursor's row is outside the document) the
  first candidate is the only one.
\<close>

theorem attemptParsesAtLine_clean:
  "clean parser source \<longrightarrow>
   (\<exists>later. yielded (attemptParsesAtLine parser source pos) = candidate parser source 0 # later \<and>
      (\<forall>c \<in> set later. 0 < deletions c) \<and>
      (0 \<le> row pos \<and> nat (row pos) < length (lines_of source) \<longrightarrow>
         later = map (\<lambda>k. candidate parser
                            (truncated source (nat (row pos)) (nat (column pos) - k)) k)
                   (filter (\<lambda>k. clean parser
                                  (truncated source (nat (row pos)) (nat (column pos) - k)))
                      [1 ..< Suc (nat (column pos))])) \<and>
      (column pos \<le> 0 \<or> row pos < 0 \<or> length (lines_of source) \<le> nat (row pos) \<longrightarrow>
         later = []))"
proof (intro impI, cases "0 \<le> row pos \<and> nat (row pos) < length (lines_of source)")
  case True
  assume "clean parser source"
  then show "\<exists>later. yielded (attemptParsesAtLine parser source pos) = candidate parser source 0 # later \<and>
      (\<forall>c \<in> set later. 0 < deletions c) \<and>
      (0 \<le> row pos \<and> nat (row pos) < length (lines_of source) \<longrightarrow>
         later = map (\<lambda>k. candidate parser
                            (truncated source (nat (row pos)) (nat (column pos) - k)) k)
                   (filter (\<lambda>k. clean parser
                                  (truncated source (nat (row pos)) (nat (column pos) - k)))
                      [1 ..< Suc (nat (column pos))])) \<and>
      (column pos \<le> 0 \<or> row pos < 0 \<or> length (lines_of source) \<le> nat (row pos) \<longrightarrow>
         later = [])"
    using True by (auto simp: attempt_inside candidate_def simp del: upt_Suc)
next
  case False
  then have outside: "row pos < 0 \<or> length (lines_of source) \<le> nat (row pos)"
    by auto
  assume "clean parser source"
  then show "\<exists>later. yielded (attemptParsesAtLine parser source pos) = candidate parser source 0 # later \<and>
      (\<forall>c \<in> set later. 0 < deletions c) \<and>
      (0 \<le> row pos \<and> nat (row pos) < length (lines_of source) \<longrightarrow>
         later = map (\<lambda>k. candidate parser
                            (truncated source (nat (row pos)) (nat (column pos) - k)) k)
                   (filter (\<lambda>k. clean parser
                                  (truncated source (nat (row pos)) (nat (column pos) - k)))
                      [1 ..< Suc (nat (column pos))])) \<and>
      (column pos \<le> 0 \<or> row pos < 0 \<or> length (lines_of source) \<le> nat (row pos) \<longrightarrow>
         later = [])"
    using outside by (auto simp: attempt_outside [OF outside] simp del: upt_Suc)
qed

text \<open>The theorem at the document \<open>a: b\<close>, cursor at the end of the line and at its start.\<close>

theorem attemptParsesAtLine_clean_witness:
  "clean bracket_parser ''a: b'' \<and>
   (\<exists>later. yielded (attemptParsesAtLine bracket_parser ''a: b'' \<lparr>row = 0, column = 4\<rparr>) =
      candidate bracket_parser ''a: b'' 0 # later \<and> (\<forall>c \<in> set later. 0 < deletions c)) \<and>
   yielded (attemptParsesAtLine bracket_parser ''a: b'' \<lparr>row = 0, column = 0\<rparr>) =
      [candidate bracket_parser ''a: b'' 0]"
proof -
  have c: "clean bracket_parser ''a: b''"
    by (simp add: clean_def bracket_parser_def)
  show ?thesis
    using c attemptParsesAtLine_clean [of bracket_parser "''a: b''" "\<lparr>row = 0, column = 4\<rparr>"]
      attemptParsesAtLine_clean [of bracket_parser "''a: b''" "\<lparr>row = 0, column = 0\<rparr>"]
    by auto
qed

text \<open>
  C1 as stated fails: the document \<open>a: b\<close> parses cleanly, and with the cursor at
  column 4 the search yields five candidates, four of them with deletions.
\<close>

theorem attemptParsesAtLine_clean_counterexample:
  "clean bracket_parser ''a: b'' \<and>
   map deletions (yielded (attemptParsesAtLine bracket_parser ''a: b'' \<lparr>row = 0, column = 4\<rparr>)) =
     [0, 1, 2, 3, 4] \<and>
   map code (yielded (attemptParsesAtLine bracket_parser ''a: b'' \<lparr>row = 0, column = 4\<rparr>)) =
     [''a: b'', ''a: '', ''a:'', ''a'', []]"
  by (simp add: clean_def attemptParsesAtLine_def LF_def rangedLines_def Let_def
      eval_nat_numeral candidate_chunks_def mappedString_def js_substring_def bracket_parser_def)

section \<open>Completion generator\<close>

lemma mset_insert_by: "mset (insert_by cmp x ys) = add_mset x (mset ys)"
  by (induction ys) auto

lemma mset_js_sort: "mset (js_sort cmp xs) = mset xs"
  by (induction xs) (auto simp: js_sort_def mset_insert_by)

lemma set_insert_by: "set (insert_by cmp x ys) = insert x (set ys)"
  by (induction ys) auto

lemma sorted_insert_by:
  assumes total: "\<And>a b. cmp a b \<le> 0 \<or> cmp b a \<le> 0"
    and trans: "\<And>a b c. cmp a b \<le> 0 \<Longrightarrow> cmp b c \<le> 0 \<Longrightarrow> cmp a c \<le> 0"
  shows "sorted_wrt (\<lambda>a b. cmp a b \<le> 0) ys \<Longrightarrow>
    sorted_wrt (\<lambda>a b. cmp a b \<le> 0) (insert_by cmp x ys)"
proof (induction ys)
  case Nil
  then show ?case by simp
next
  case (Cons y ys)
  from Cons.prems have tail: "sorted_wrt (\<lambda>a b. cmp a b \<le> 0) ys"
    and above: "\<forall>z \<in> set ys. cmp y z \<le> 0"
    by simp_all
  show ?case
  proof (cases "cmp x y \<le> 0")
    case True
    have "cmp x z \<le> 0" if "z \<in> set ys" for z
    proof -
      from above that have "cmp y z \<le> 0" by simp
      with True show ?thesis by (rule trans)
    qed
    with True tail above show ?thesis by simp
  next
    case False
    with total [of x y] have "cmp y x \<le> 0" by simp
    with above have "\<forall>z \<in> set (insert_by cmp x ys). cmp y z \<le> 0"
      by (simp add: set_insert_by)
    moreover have "sorted_wrt (\<lambda>a b. cmp a b \<le> 0) (insert_by cmp x ys)"
      using tail by (rule Cons.IH)
    ultimately show ?thesis using False by simp
  qed
qed

lemma sorted_js_sort:
  assumes total: "\<And>a b. cmp a b \<le> 0 \<or> cmp b a \<le> 0"
    and trans: "\<And>a b c. cmp a b \<le> 0 \<Longrightarrow> cmp b c \<le> 0 \<Longrightarrow> cmp a c \<le> 0"
  shows "sorted_wrt (\<lambda>a b. cmp a b \<le> 0) (js_sort cmp xs)"
proof (induction xs)
  case Nil
  then show ?case by (simp add: js_sort_def)
next
  case (Cons x xs)
  have "sorted_wrt (\<lambda>a b. cmp a b \<le> 0) (insert_by cmp x (js_sort cmp xs))"
    using total trans Cons.IH by (rule sorted_insert_by)
  then show ?case by (simp add: js_sort_def)
qed

lemma sorted_by_value:
  assumes "consistent cmp"
  shows "sorted_wrt (\<lambda>a b. cmp (c_value a) (c_value b) \<le> 0)
    (js_sort (\<lambda>a b. cmp (c_value a) (c_value b)) xs)"
proof -
  have total: "cmp a b \<le> 0 \<or> cmp b a \<le> 0" for a b
    using assms unfolding consistent_def by blast
  have trans: "cmp a c \<le> 0" if "cmp a b \<le> 0" "cmp b c \<le> 0" for a b c
    using assms that unfolding consistent_def by blast
  show ?thesis
  proof (rule sorted_js_sort [where cmp = "\<lambda>a b. cmp (c_value a) (c_value b)"])
    show "cmp (c_value a) (c_value b) \<le> 0 \<or> cmp (c_value b) (c_value a) \<le> 0" for a b
      by (rule total)
    show "cmp (c_value a) (c_value c) \<le> 0"
      if "cmp (c_value a) (c_value b) \<le> 0" "cmp (c_value b) (c_value c) \<le> 0" for a b c
      using that by (rule trans)
  qed
qed

lemma consistent_lex_compare: "consistent lex_compare"
  unfolding consistent_def lex_compare_def by (auto split: if_splits)

lemma completions_Some:
  assumes "navigateSchema depth schema path = Some (Inr matching)"
    and "candidates_of schemaCompletions commentPrefix indent matching = Inr candidates"
  shows "completions cmp schemaCompletions depth schema path word indent commentPrefix =
    Some (Inr (if filter (\<lambda>c. starts_with (c_value c) word) candidates = [] then None
               else Some \<lparr>token = word,
                  items = js_sort (\<lambda>a b. cmp (c_value a) (c_value b))
                    (filter (\<lambda>c. starts_with (c_value c) word) candidates),
                  cacheable = True\<rparr>))"
  using assms by (simp add: completions_def completionsPromise_def Let_def)

lemma size_schema_matching: "navigateSchema 2 size_schema [] = Some (Inr [size_schema])"
  by (simp add: navigateSchema_def numeral_2_eq_2 resolve_def register_def segment_key_def obj_get_def
      a_not_inherited missing_not_inherited size_schema_def)

lemma size_schema_candidates:
  "candidates_of property_keys [] 0 [size_schema] = Inr (property_keys size_schema)"
  by (simp add: candidates_of_def property_keys_def decorate_def size_schema_def)

lemma width_after_weight: "lex_compare ''width'' ''weight'' = 1"
  by code_simp

lemma starts_with_append:
  assumes "LF \<notin> set w"
  shows "starts_with (s @ LF # t) w = starts_with s w"
proof (cases "length w \<le> length s")
  case True
  then show ?thesis by (simp add: starts_with_def)
next
  case False
  then have longer: "length s < length w" by simp
  have "\<not> starts_with (s @ LF # t) w"
  proof
    assume "starts_with (s @ LF # t) w"
    then have "take (length w) (s @ LF # t) = w" by (simp add: starts_with_def)
    then have "w ! length s = (s @ LF # t) ! length s"
      using longer by (metis nth_take)
    then have "w ! length s = LF" by simp
    with longer assms show False by (metis nth_mem)
  qed
  moreover have "\<not> starts_with s w"
    using longer by (auto simp: starts_with_def)
  ultimately show ?thesis by simp
qed

lemma decorate_starts_with:
  assumes "decorate commentPrefix indent c = Inr c'" "LF \<notin> set w"
  shows "starts_with (c_value c') w = starts_with (c_value c) w"
  using assms
  by (auto simp: decorate_def Let_def starts_with_append
      split: if_splits shape.splits option.splits)

lemma traverse_all2:
  "traverse f xs = Inr ys \<Longrightarrow> list_all2 (\<lambda>x y. f x = Inr y) xs ys"
  by (induction xs arbitrary: ys) (auto split: sum.splits)

lemma traverse_decorate_starts_with:
  assumes "traverse (decorate commentPrefix indent) raw = Inr dec" "LF \<notin> set w"
  shows "map (\<lambda>c. starts_with (c_value c) w) dec = map (\<lambda>c. starts_with (c_value c) w) raw"
proof -
  from assms(1) have "list_all2 (\<lambda>x y. decorate commentPrefix indent x = Inr y) raw dec"
    by (rule traverse_all2)
  then show ?thesis
    by (induction rule: list_all2_induct) (simp_all add: decorate_starts_with [OF _ assms(2)])
qed

lemma candidates_of_starts_with:
  assumes "candidates_of sc commentPrefix indent matching = Inr candidates" "LF \<notin> set w"
  shows "map (\<lambda>c. starts_with (c_value c) w) candidates =
    map (\<lambda>c. starts_with (c_value c) w) (concat (map sc matching))"
proof -
  from assms(1) obtain nested where
    nested: "traverse (\<lambda>schema2. traverse (decorate commentPrefix indent) (sc schema2)) matching =
      Inr nested" and c: "candidates = concat nested"
    by (auto simp: candidates_of_def split: sum.splits)
  from nested have "list_all2 (\<lambda>s ds. traverse (decorate commentPrefix indent) (sc s) = Inr ds)
      matching nested"
    by (rule traverse_all2)
  then have "map (\<lambda>c. starts_with (c_value c) w) (concat nested) =
      map (\<lambda>c. starts_with (c_value c) w) (concat (map sc matching))"
    by (induction rule: list_all2_induct)
      (simp_all add: traverse_decorate_starts_with [OF _ assms(2)])
  with c show ?thesis by simp
qed

lemma lexicographic_lex_compare: "lexicographic lex_compare"
  unfolding lexicographic_def lex_compare_def by auto

lemma lexicographic_consistent: "lexicographic cmp \<Longrightarrow> consistent cmp"
  unfolding lexicographic_def consistent_def by (metis linear order_trans)

lemma consistent_letters_compare: "consistent letters_compare"
  unfolding consistent_def letters_compare_def lex_compare_def by (auto split: if_splits)

lemma sorted_values:
  assumes "lexicographic cmp"
  shows "map c_value (js_sort (\<lambda>a b. cmp (c_value a) (c_value b)) xs) = sort (map c_value xs)"
proof -
  let ?ys = "js_sort (\<lambda>a b. cmp (c_value a) (c_value b)) xs"
  have "sorted_wrt (\<lambda>a b. cmp (c_value a) (c_value b) \<le> 0) ?ys"
    using lexicographic_consistent [OF assms] by (rule sorted_by_value)
  then have "sorted_wrt (\<lambda>a b. c_value a \<le> c_value b) ?ys"
    using assms unfolding lexicographic_def by simp
  then have "sorted (map c_value ?ys)"
    by (simp add: sorted_wrt_map)
  moreover have "mset (map c_value ?ys) = mset (map c_value xs)"
    by (simp add: mset_js_sort)
  ultimately show ?thesis
    by (metis properties_for_sort)
qed

lemma decorate_plain:
  "\<not> suggest_on_accept raw \<or> c_type raw = TValue \<Longrightarrow> decorate commentPrefix indent raw = Inr raw"
  by (auto simp: decorate_def)

lemma list_all2_concat:
  "list_all2 (list_all2 R) xss yss \<Longrightarrow> list_all2 R (concat xss) (concat yss)"
  by (induction rule: list_all2_induct) (simp_all add: list_all2_appendI)

lemma candidates_of_decorated:
  assumes "candidates_of sc commentPrefix indent matching = Inr candidates"
  shows "list_all2 (\<lambda>raw c. decorate commentPrefix indent raw = Inr c)
    (concat (map sc matching)) candidates"
proof -
  from assms obtain nested where
    nested: "traverse (\<lambda>schema2. traverse (decorate commentPrefix indent) (sc schema2)) matching =
      Inr nested" and c: "candidates = concat nested"
    by (auto simp: candidates_of_def split: sum.splits)
  from nested have "list_all2 (\<lambda>s ds. traverse (decorate commentPrefix indent) (sc s) = Inr ds)
      matching nested"
    by (rule traverse_all2)
  then have "list_all2 (list_all2 (\<lambda>raw c. decorate commentPrefix indent raw = Inr c))
      (map sc matching) nested"
    by (induction rule: list_all2_induct) (simp_all add: traverse_all2)
  then show ?thesis
    unfolding c by (rule list_all2_concat)
qed

lemma candidates_of_plain:
  assumes "candidates_of sc commentPrefix indent matching = Inr candidates"
    and "list_all (\<lambda>raw. \<not> suggest_on_accept raw \<or> c_type raw = TValue) (concat (map sc matching))"
  shows "candidates = concat (map sc matching)"
proof -
  have "list_all2 (\<lambda>raw c. decorate commentPrefix indent raw = Inr c)
      (concat (map sc matching)) candidates"
    using assms(1) by (rule candidates_of_decorated)
  then show ?thesis
    using assms(2)
    by (induction rule: list_all2_induct) (auto simp: decorate_plain)
qed

lemma decorated_run:
  "accept_keys nested_schema =
     [\<lparr>c_value = ''a'', c_type = TKey, c_schema = nested_schema, suggest_on_accept = True\<rparr>] \<and>
   completions lex_compare accept_keys 2 nested_schema [] ''a'' 0 ''# '' =
     Some (Inr (Some \<lparr>token = ''a'',
       items = [\<lparr>c_value = ''a'' @ [LF] @ ''#   '', c_type = TKey, c_schema = nested_schema,
                 suggest_on_accept = True\<rparr>],
       cacheable = True\<rparr>))"
  by code_simp

lemma letters_run:
  "map c_value (property_keys case_schema) = [''B'', ''a''] \<and>
   completions letters_compare property_keys 2 case_schema [] [] 0 [] =
     Some (Inr (Some \<lparr>token = [],
       items = [\<lparr>c_value = ''a'', c_type = TKey, c_schema = case_schema, suggest_on_accept = False\<rparr>,
                \<lparr>c_value = ''B'', c_type = TKey, c_schema = case_schema, suggest_on_accept = False\<rparr>],
       cacheable = True\<rparr>)) \<and>
   ''B'' < ''a''"
  by code_simp

text \<open>
  C7, as the code has it. Whenever the navigation and the derivation of the
  candidates succeed, the candidates that \<open>completions\<close> filters are the raw
  candidates of the matching schemas, each one decorated: a key marked
  \<open>suggest_on_accept\<close> whose property is an object or an array has a line break,
  the comment prefix and the indentation of a child appended to its value. They
  are the raw candidates themselves when none of these is such a key, and for a
  word without a line feed a candidate starts with the word exactly when the raw
  candidate it comes from does. When no candidate starts with the word,
  \<open>completions\<close> resolves to \<open>null\<close>. Otherwise it resolves to a list that holds
  exactly the candidates whose value starts with the word (each as often as it
  occurs), ordered by the string comparison \<open>localeCompare\<close> of the runtime: the
  list is sorted under that comparison when it orders consistently, and its values
  are in lexicographic order when the comparison is the lexicographic one. Under
  the lexicographic comparison the word \<open>w\<close> and the candidates \<open>width\<close>, \<open>weight\<close>,
  \<open>height\<close> give \<open>weight\<close>, \<open>width\<close> in that order.
\<close>

theorem completions_filtered_sorted:
  "(navigateSchema depth schema path = Some (Inr matching) \<and>
    candidates_of schemaCompletions commentPrefix indent matching = Inr candidates \<longrightarrow>
    list_all2 (\<lambda>raw c. decorate commentPrefix indent raw = Inr c)
      (concat (map schemaCompletions matching)) candidates \<and>
    (list_all (\<lambda>raw. \<not> suggest_on_accept raw \<or> c_type raw = TValue)
        (concat (map schemaCompletions matching)) \<longrightarrow>
       candidates = concat (map schemaCompletions matching)) \<and>
    (LF \<notin> set word \<longrightarrow>
       map (\<lambda>c. starts_with (c_value c) word) candidates =
       map (\<lambda>c. starts_with (c_value c) word) (concat (map schemaCompletions matching))) \<and>
    (\<exists>sorted_items.
       completions localeCompare schemaCompletions depth schema path word indent commentPrefix =
         Some (Inr (if filter (\<lambda>c. starts_with (c_value c) word) candidates = [] then None
                    else Some \<lparr>token = word, items = sorted_items, cacheable = True\<rparr>)) \<and>
       mset sorted_items = mset (filter (\<lambda>c. starts_with (c_value c) word) candidates) \<and>
       (consistent localeCompare \<longrightarrow>
          sorted_wrt (\<lambda>a b. localeCompare (c_value a) (c_value b) \<le> 0) sorted_items) \<and>
       (lexicographic localeCompare \<longrightarrow>
          map c_value sorted_items =
          sort (map c_value (filter (\<lambda>c. starts_with (c_value c) word) candidates))))) \<and>
   (\<exists>r. completions lex_compare property_keys 2 size_schema [] ''w'' 0 [] = Some (Inr (Some r)) \<and>
      map c_value (property_keys size_schema) = [''width'', ''weight'', ''height''] \<and>
      map c_value (items r) = [''weight'', ''width''])"
proof (rule conjI, rule impI)
  assume a: "navigateSchema depth schema path = Some (Inr matching) \<and>
    candidates_of schemaCompletions commentPrefix indent matching = Inr candidates"
  then have nav: "navigateSchema depth schema path = Some (Inr matching)"
    and cands: "candidates_of schemaCompletions commentPrefix indent matching = Inr candidates"
    by simp_all
  let ?raw = "concat (map schemaCompletions matching)"
  let ?f = "filter (\<lambda>c. starts_with (c_value c) word) candidates"
  let ?s = "js_sort (\<lambda>a b. localeCompare (c_value a) (c_value b)) ?f"
  have decorated: "list_all2 (\<lambda>raw c. decorate commentPrefix indent raw = Inr c) ?raw candidates"
    using cands by (rule candidates_of_decorated)
  have plain: "list_all (\<lambda>raw. \<not> suggest_on_accept raw \<or> c_type raw = TValue) ?raw \<longrightarrow>
      candidates = ?raw"
    using candidates_of_plain [OF cands] by blast
  have word: "LF \<notin> set word \<longrightarrow>
      map (\<lambda>c. starts_with (c_value c) word) candidates =
      map (\<lambda>c. starts_with (c_value c) word) ?raw"
    using candidates_of_starts_with [OF cands] by blast
  have run: "completions localeCompare schemaCompletions depth schema path word indent commentPrefix =
      Some (Inr (if ?f = [] then None
                 else Some \<lparr>token = word, items = ?s, cacheable = True\<rparr>))"
    using nav cands by (rule completions_Some)
  have same: "mset ?s = mset ?f"
    by (rule mset_js_sort)
  have ordered: "consistent localeCompare \<longrightarrow>
      sorted_wrt (\<lambda>a b. localeCompare (c_value a) (c_value b) \<le> 0) ?s"
    using sorted_by_value [of localeCompare ?f] by blast
  have lex: "lexicographic localeCompare \<longrightarrow> map c_value ?s = sort (map c_value ?f)"
    using sorted_values [of localeCompare ?f] by blast
  have result: "\<exists>sorted_items.
       completions localeCompare schemaCompletions depth schema path word indent commentPrefix =
         Some (Inr (if ?f = [] then None
                    else Some \<lparr>token = word, items = sorted_items, cacheable = True\<rparr>)) \<and>
       mset sorted_items = mset ?f \<and>
       (consistent localeCompare \<longrightarrow>
          sorted_wrt (\<lambda>a b. localeCompare (c_value a) (c_value b) \<le> 0) sorted_items) \<and>
       (lexicographic localeCompare \<longrightarrow> map c_value sorted_items = sort (map c_value ?f))"
    using run same ordered lex by (intro exI [of _ ?s] conjI)
  from decorated plain word result
  show "list_all2 (\<lambda>raw c. decorate commentPrefix indent raw = Inr c) ?raw candidates \<and>
    (list_all (\<lambda>raw. \<not> suggest_on_accept raw \<or> c_type raw = TValue) ?raw \<longrightarrow>
       candidates = ?raw) \<and>
    (LF \<notin> set word \<longrightarrow>
       map (\<lambda>c. starts_with (c_value c) word) candidates =
       map (\<lambda>c. starts_with (c_value c) word) ?raw) \<and>
    (\<exists>sorted_items.
       completions localeCompare schemaCompletions depth schema path word indent commentPrefix =
         Some (Inr (if ?f = [] then None
                    else Some \<lparr>token = word, items = sorted_items, cacheable = True\<rparr>)) \<and>
       mset sorted_items = mset ?f \<and>
       (consistent localeCompare \<longrightarrow>
          sorted_wrt (\<lambda>a b. localeCompare (c_value a) (c_value b) \<le> 0) sorted_items) \<and>
       (lexicographic localeCompare \<longrightarrow> map c_value sorted_items = sort (map c_value ?f)))"
    by (intro conjI)
next
  show "\<exists>r. completions lex_compare property_keys 2 size_schema [] ''w'' 0 [] = Some (Inr (Some r)) \<and>
      map c_value (property_keys size_schema) = [''width'', ''weight'', ''height''] \<and>
      map c_value (items r) = [''weight'', ''width'']"
    by (simp add: completions_def size_schema_matching size_schema_candidates
        property_keys_def [of size_schema] starts_with_def completionsPromise_def js_sort_def
        width_after_weight Let_def)
      (simp add: size_schema_def width_after_weight)
qed

text \<open>
  The general part at the same request, with the lexicographic comparison, and at
  the word \<open>x\<close>, which no candidate starts with.
\<close>

theorem completions_filtered_sorted_witness:
  "navigateSchema 2 size_schema [] = Some (Inr [size_schema]) \<and>
   candidates_of property_keys [] 0 [size_schema] = Inr (property_keys size_schema) \<and>
   list_all (\<lambda>raw. \<not> suggest_on_accept raw \<or> c_type raw = TValue)
     (concat (map property_keys [size_schema])) \<and>
   LF \<notin> set ''w'' \<and>
   consistent lex_compare \<and>
   lexicographic lex_compare \<and>
   filter (\<lambda>c. starts_with (c_value c) ''w'') (property_keys size_schema) \<noteq> [] \<and>
   (\<exists>sorted_items.
      completions lex_compare property_keys 2 size_schema [] ''w'' 0 [] =
        Some (Inr (Some \<lparr>token = ''w'', items = sorted_items, cacheable = True\<rparr>)) \<and>
      mset sorted_items =
        mset (filter (\<lambda>c. starts_with (c_value c) ''w'') (property_keys size_schema)) \<and>
      sorted_wrt (\<lambda>a b. lex_compare (c_value a) (c_value b) \<le> 0) sorted_items \<and>
      map c_value sorted_items =
        sort (map c_value (filter (\<lambda>c. starts_with (c_value c) ''w'') (property_keys size_schema)))) \<and>
   filter (\<lambda>c. starts_with (c_value c) ''x'') (property_keys size_schema) = [] \<and>
   completions lex_compare property_keys 2 size_schema [] ''x'' 0 [] = Some (Inr None)"
proof -
  let ?fw = "filter (\<lambda>c. starts_with (c_value c) ''w'') (property_keys size_schema)"
  let ?fx = "filter (\<lambda>c. starts_with (c_value c) ''x'') (property_keys size_schema)"
  have nonempty: "?fw \<noteq> []"
    by (simp add: property_keys_def size_schema_def starts_with_def)
  have empty: "?fx = []"
    by (simp add: property_keys_def size_schema_def starts_with_def)
  have plain: "list_all (\<lambda>raw. \<not> suggest_on_accept raw \<or> c_type raw = TValue)
      (concat (map property_keys [size_schema]))"
    by (simp add: property_keys_def size_schema_def)
  have word: "LF \<notin> set ''w''"
    by (simp add: LF_def)
  have hyps: "navigateSchema 2 size_schema [] = Some (Inr [size_schema]) \<and>
      candidates_of property_keys [] 0 [size_schema] = Inr (property_keys size_schema)"
    using size_schema_matching size_schema_candidates by (rule conjI)
  note at_w = mp [OF conjunct1 [OF completions_filtered_sorted [where depth = 2
          and schema = size_schema and path = "[]" and matching = "[size_schema]"
          and schemaCompletions = property_keys and commentPrefix = "[]" and indent = 0
          and candidates = "property_keys size_schema" and word = "''w''"
          and localeCompare = lex_compare]] hyps]
  note at_x = mp [OF conjunct1 [OF completions_filtered_sorted [where depth = 2
          and schema = size_schema and path = "[]" and matching = "[size_schema]"
          and schemaCompletions = property_keys and commentPrefix = "[]" and indent = 0
          and candidates = "property_keys size_schema" and word = "''x''"
          and localeCompare = lex_compare]] hyps]
  from at_w obtain s where
    run: "completions lex_compare property_keys 2 size_schema [] ''w'' 0 [] =
      Some (Inr (if ?fw = [] then None else Some \<lparr>token = ''w'', items = s, cacheable = True\<rparr>))"
    and same: "mset s = mset ?fw"
    and ordered: "consistent lex_compare \<longrightarrow>
      sorted_wrt (\<lambda>a b. lex_compare (c_value a) (c_value b) \<le> 0) s"
    and lex: "lexicographic lex_compare \<longrightarrow> map c_value s = sort (map c_value ?fw)"
    by blast
  from run nonempty have run_w: "completions lex_compare property_keys 2 size_schema [] ''w'' 0 [] =
      Some (Inr (Some \<lparr>token = ''w'', items = s, cacheable = True\<rparr>))"
    by (simp only: if_False)
  from ordered consistent_lex_compare
  have ordered_w: "sorted_wrt (\<lambda>a b. lex_compare (c_value a) (c_value b) \<le> 0) s"
    by (rule mp)
  from lex lexicographic_lex_compare have lex_w: "map c_value s = sort (map c_value ?fw)"
    by (rule mp)
  from run_w same ordered_w lex_w have found: "\<exists>sorted_items.
      completions lex_compare property_keys 2 size_schema [] ''w'' 0 [] =
        Some (Inr (Some \<lparr>token = ''w'', items = sorted_items, cacheable = True\<rparr>)) \<and>
      mset sorted_items = mset ?fw \<and>
      sorted_wrt (\<lambda>a b. lex_compare (c_value a) (c_value b) \<le> 0) sorted_items \<and>
      map c_value sorted_items = sort (map c_value ?fw)"
    by (intro exI [of _ s] conjI)
  from at_x obtain t where
    "completions lex_compare property_keys 2 size_schema [] ''x'' 0 [] =
      Some (Inr (if ?fx = [] then None else Some \<lparr>token = ''x'', items = t, cacheable = True\<rparr>))"
    by blast
  then have run_x: "completions lex_compare property_keys 2 size_schema [] ''x'' 0 [] =
      Some (Inr None)"
    by (simp only: empty simp_thms if_True)
  from hyps have nav: "navigateSchema 2 size_schema [] = Some (Inr [size_schema])"
    and cands: "candidates_of property_keys [] 0 [size_schema] = Inr (property_keys size_schema)"
    by simp_all
  from nav cands plain word consistent_lex_compare lexicographic_lex_compare nonempty found
    empty run_x
  show ?thesis
    by (intro conjI)
qed

text \<open>
  C7 as stated fails. The raw candidate \<open>a\<close>, a key marked \<open>suggest_on_accept\<close> whose
  property is an object, is returned for the word \<open>a\<close> with the value \<open>a\<close>, a line
  break, the comment prefix \<open># \<close> and two spaces, which is not the value of a raw
  candidate. And the order is that of the runtime's comparison: under a
  comparison that orders consistently and ranks a letter before a later letter
  in upper case, the candidates \<open>B\<close>, \<open>a\<close> are returned as \<open>a\<close>, \<open>B\<close>, where the
  lexicographic order has \<open>B\<close> first.
\<close>

theorem completions_filtered_sorted_counterexample:
  "(accept_keys nested_schema =
      [\<lparr>c_value = ''a'', c_type = TKey, c_schema = nested_schema, suggest_on_accept = True\<rparr>] \<and>
    completions lex_compare accept_keys 2 nested_schema [] ''a'' 0 ''# '' =
      Some (Inr (Some \<lparr>token = ''a'',
        items = [\<lparr>c_value = ''a'' @ [LF] @ ''#   '', c_type = TKey, c_schema = nested_schema,
                  suggest_on_accept = True\<rparr>],
        cacheable = True\<rparr>))) \<and>
   consistent letters_compare \<and>
   (map c_value (property_keys case_schema) = [''B'', ''a''] \<and>
    completions letters_compare property_keys 2 case_schema [] [] 0 [] =
      Some (Inr (Some \<lparr>token = [],
        items = [\<lparr>c_value = ''a'', c_type = TKey, c_schema = case_schema, suggest_on_accept = False\<rparr>,
                 \<lparr>c_value = ''B'', c_type = TKey, c_schema = case_schema, suggest_on_accept = False\<rparr>],
        cacheable = True\<rparr>)) \<and>
    ''B'' < ''a'')"
  by (rule conjI [OF decorated_run conjI [OF consistent_letters_compare letters_run]])

text \<open>
  C8. Whenever the navigation and the derivation of the candidates succeed,
  \<open>completions\<close> resolves to \<open>null\<close> if no candidate starts with the word, and it
  does so without an error; if some candidate does, it resolves to a list that is
  not empty. So an empty success list never occurs.
\<close>

theorem completions_null_when_empty:
  "navigateSchema depth schema path = Some (Inr matching) \<and>
   candidates_of schemaCompletions commentPrefix indent matching = Inr candidates \<longrightarrow>
   (filter (\<lambda>c. starts_with (c_value c) word) candidates = [] \<longrightarrow>
      completions localeCompare schemaCompletions depth schema path word indent commentPrefix =
        Some (Inr None)) \<and>
   (filter (\<lambda>c. starts_with (c_value c) word) candidates \<noteq> [] \<longrightarrow>
      (\<exists>r. completions localeCompare schemaCompletions depth schema path word indent commentPrefix =
         Some (Inr (Some r)) \<and> items r \<noteq> []))"
proof (intro impI conjI)
  assume a: "navigateSchema depth schema path = Some (Inr matching) \<and>
    candidates_of schemaCompletions commentPrefix indent matching = Inr candidates"
  let ?f = "filter (\<lambda>c. starts_with (c_value c) word) candidates"
  note run = completions_Some [of depth schema path matching schemaCompletions commentPrefix indent
      candidates localeCompare word]
  {
    assume "?f = []"
    then show "completions localeCompare schemaCompletions depth schema path word indent
        commentPrefix = Some (Inr None)"
      using a run by simp
  }
  {
    assume ne: "?f \<noteq> []"
    have "js_sort (\<lambda>a b. localeCompare (c_value a) (c_value b)) ?f \<noteq> []"
    proof
      assume "js_sort (\<lambda>a b. localeCompare (c_value a) (c_value b)) ?f = []"
      then have "mset (js_sort (\<lambda>a b. localeCompare (c_value a) (c_value b)) ?f) = {#}"
        by simp
      then have "?f = []"
        by (simp only: mset_js_sort mset_zero_iff)
      with ne show False by contradiction
    qed
    then show "\<exists>r. completions localeCompare schemaCompletions depth schema path word indent
        commentPrefix = Some (Inr (Some r)) \<and> items r \<noteq> []"
      using a run ne by simp
  }
qed

text \<open>The theorem at the word \<open>x\<close>, which no property name of the schema starts with.\<close>

theorem completions_null_when_empty_witness:
  "navigateSchema 2 size_schema [] = Some (Inr [size_schema]) \<and>
   candidates_of property_keys [] 0 [size_schema] = Inr (property_keys size_schema) \<and>
   filter (\<lambda>c. starts_with (c_value c) ''x'') (property_keys size_schema) = [] \<and>
   completions lex_compare property_keys 2 size_schema [] ''x'' 0 [] = Some (Inr None)"
proof -
  have empty: "filter (\<lambda>c. starts_with (c_value c) ''x'') (property_keys size_schema) = []"
    by (simp add: property_keys_def size_schema_def starts_with_def)
  have hyps: "navigateSchema 2 size_schema [] = Some (Inr [size_schema]) \<and>
      candidates_of property_keys [] 0 [size_schema] = Inr (property_keys size_schema)"
    using size_schema_matching size_schema_candidates by (intro conjI)
  note general = mp [OF completions_null_when_empty [of 2 size_schema "[]" "[size_schema]"
        property_keys "[]" 0 "property_keys size_schema" "''x''" lex_compare] hyps]
  from mp [OF conjunct1 [OF general] empty] hyps empty show ?thesis
    by (simp only: simp_thms)
qed

section \<open>Front-matter fences\<close>

lemma strip_fences_leading:
  assumes "starts_with source ''---''" "r \<noteq> 0"
  shows "strip_fences completing source r = Some []"
proof -
  from assms(1) have "take 3 source = ''---''"
    by (simp add: starts_with_def eval_nat_numeral)
  then have cut: "mappedString source [Range None 3] = ''---''"
    by (simp add: mappedString_def js_substring_take)
  have one: "length (mappedLines ''---'') = 1"
    by (simp add: LF_def mappedLines_def)
  have fence: "ends_with ''---'' ''---''"
    by (simp add: ends_with_def)
  have rest: "mappedString ''---'' [Range None 0] = []"
    by (simp add: mappedString_def js_substring_take)
  show ?thesis
    using assms unfolding strip_fences_def cut Let_def
    by (simp add: one fence rest)
qed

text \<open>
  C6 on the code. The document \<open>---\<close>, \<open>a: 1\<close> begins with a fence and the cursor is on
  its second line, so by the claim the text that is parsed is the document
  without the fence line. The code goes on with the empty text: the first range
  keeps the three characters of the fence instead of dropping them, and what is
  kept then counts as a trailing fence and is cut off. On the fence line itself
  the request returns the sentinel, as claimed.
\<close>

theorem strip_fences_leading_fence_empties:
  "starts_with fenced_doc ''---'' \<and>
   strip_fences True fenced_doc 0 = None \<and>
   strip_fences True fenced_doc 1 = Some [] \<and>
   unfenced_doc \<noteq> [] \<and>
   strip_fences True unfenced_doc 0 = Some unfenced_doc"
proof -
  have s: "starts_with fenced_doc ''---''"
    by (simp add: fenced_doc_def starts_with_def)
  have u: "\<not> starts_with unfenced_doc ''---''" "\<not> ends_with unfenced_doc ''---''"
    by (simp_all add: unfenced_doc_def starts_with_def ends_with_def LF_def)
  show ?thesis
    using s u strip_fences_leading [of fenced_doc 1 True]
    by (simp add: strip_fences_def Let_def) (simp add: unfenced_doc_def)
qed

section \<open>YAML completion entry point\<close>

lemma set_js_sort: "set (js_sort cmp xs) = set xs"
  using mset_js_sort [of cmp xs] by (metis set_mset_mset)

lemma completions_items_word:
  assumes "completions cmp sc depth schema p word indent commentPrefix = Some (Inr (Some r))"
  shows "\<forall>x \<in> set (items r). starts_with (c_value x) word"
proof -
  obtain matching where "navigateSchema depth schema p = Some (Inr matching)"
    using assms by (auto simp: completions_def split: option.splits sum.splits)
  moreover obtain candidates where "candidates_of sc commentPrefix indent matching = Inr candidates"
    using assms calculation by (auto simp: completions_def split: option.splits sum.splits)
  ultimately have "completions cmp sc depth schema p word indent commentPrefix =
      Some (Inr (if filter (\<lambda>c. starts_with (c_value c) word) candidates = [] then None
           else Some \<lparr>token = word,
              items = js_sort (\<lambda>a b. cmp (c_value a) (c_value b))
                (filter (\<lambda>c. starts_with (c_value c) word) candidates),
              cacheable = True\<rparr>))"
    by (rule completions_Some)
  with assms have "items r = js_sort (\<lambda>a b. cmp (c_value a) (c_value b))
      (filter (\<lambda>c. starts_with (c_value c) word) candidates)"
    by (auto split: if_splits)
  then show ?thesis by (simp add: set_js_sort)
qed

lemma completions_at_items_word:
  assumes "completions_at ext schema path word indent commentPrefix = Some (Inr (Some r))"
  shows "\<forall>x \<in> set (items r). starts_with (c_value x) word"
proof -
  from assms obtain p where "path = Some p"
    by (cases path) (auto simp: completions_at_def split: if_splits sum.splits)
  with assms have "completions (ext_localeCompare ext) (ext_schemaCompletions ext) (ext_depth ext)
      schema p word indent commentPrefix = Some (Inr (Some r))"
    by (auto simp: completions_at_def split: option.splits sum.splits)
  then show ?thesis by (rule completions_items_word)
qed

lemma keep_type_items:
  assumes "keep_type t raw = Inr (Completions (Some r))"
  shows "\<exists>r0. raw = Some r0 \<and> items r = filter (\<lambda>c. c_type c = t) (items r0)"
  using assms by (cases raw) (auto simp: keep_type_def)

lemma kept_items:
  assumes "completions_at ext schema path word indent commentPrefix = Some (Inr raw)"
    and "keep_type t raw = Inr (Completions (Some r))"
  shows "(\<forall>x \<in> set (items r). starts_with (c_value x) word) \<and>
    (\<forall>x \<in> set (items r). c_type x = t)"
proof -
  from assms(2) obtain r0 where r0: "raw = Some r0"
    "items r = filter (\<lambda>c. c_type c = t) (items r0)"
    using keep_type_items by blast
  from assms(1) r0(1) have "\<forall>x \<in> set (items r0). starts_with (c_value x) word"
    by (intro completions_at_items_word) simp
  with r0(2) show ?thesis by simp
qed

lemma try_candidates_Cons_blank:
  assumes "blank_cut line c"
    and "try_candidates ext line pos schema commentPrefix word indent fin (c # rest) =
      Some (Inr (Completions (Some r)))"
  shows "(\<forall>x \<in> set (items r). starts_with (c_value x) word) \<and>
    (\<forall>x \<in> set (items r). c_type x = TKey)"
proof -
  from assms obtain path raw where
    "completions_at ext schema path word indent commentPrefix = Some (Inr raw)"
    "keep_type TKey raw = Inr (Completions (Some r))"
    by (auto simp: blank_cut_def split: option.splits sum.splits)
  then show ?thesis by (rule kept_items)
qed

lemma try_candidates_Cons_passed:
  assumes "passed_over ext line c"
  shows "try_candidates ext line pos schema commentPrefix word indent fin (c # rest) =
    try_candidates ext line pos schema commentPrefix word indent fin rest"
  using assms
  by (auto simp: passed_over_def blank_cut_def split: sum.splits option.splits)

lemma try_candidates_Cons_taken:
  assumes "\<not> blank_cut line c" "\<not> passed_over ext line c"
    and "try_candidates ext line pos schema commentPrefix word indent fin (c # rest) =
      Some (Inr (Completions (Some r)))"
  shows "(\<forall>x \<in> set (items r). starts_with (c_value x) word) \<and>
    (CHR '':'' \<in> set line \<longrightarrow> (\<forall>x \<in> set (items r). c_type x = TValue))"
proof -
  from assms obtain doc where doc:
    "buildAnnotated (ext_mapClosest ext c) (ext_parseJson ext) (parse c) = Inr (Some doc)"
    "node_end doc = length (code c)"
    by (auto simp: passed_over_def blank_cut_def split: sum.splits option.splits if_splits)
  with assms obtain path raw where raw:
    "completions_at ext schema path word indent commentPrefix = Some (Inr raw)"
    "if CHR '':'' \<in> set line then keep_type TValue raw = Inr (Completions (Some r))
     else raw = Some r"
    by (auto simp: blank_cut_def Let_def split: sum.splits option.splits if_splits)
  show ?thesis
  proof (cases "CHR '':'' \<in> set line")
    case True
    with raw have "keep_type TValue raw = Inr (Completions (Some r))" by simp
    with raw(1) show ?thesis using kept_items by blast
  next
    case False
    with raw have "completions_at ext schema path word indent commentPrefix = Some (Inr (Some r))"
      by simp
    then show ?thesis using False completions_at_items_word by blast
  qed
qed

lemma try_candidates_result:
  assumes "try_candidates ext line pos schema commentPrefix word indent fin cands =
      Some (Inr (Completions (Some r)))"
  shows "\<exists>pre c post. cands = pre @ c # post \<and>
      (\<forall>p \<in> set pre. passed_over ext line p) \<and> \<not> passed_over ext line c \<and>
      (\<forall>x \<in> set (items r). starts_with (c_value x) word) \<and>
      (blank_cut line c \<longrightarrow> (\<forall>x \<in> set (items r). c_type x = TKey)) \<and>
      (\<not> blank_cut line c \<and> CHR '':'' \<in> set line \<longrightarrow>
         (\<forall>x \<in> set (items r). c_type x = TValue))"
  using assms
proof (induction cands)
  case Nil
  then show ?case by (simp split: if_splits)
next
  case (Cons c rest)
  show ?case
  proof (cases "passed_over ext line c")
    case True
    with Cons.prems have "try_candidates ext line pos schema commentPrefix word indent fin rest =
        Some (Inr (Completions (Some r)))"
      by (simp only: try_candidates_Cons_passed)
    from Cons.IH [OF this] obtain pre c' post where
      "rest = pre @ c' # post" "\<forall>p \<in> set pre. passed_over ext line p"
      "\<not> passed_over ext line c'"
      "\<forall>x \<in> set (items r). starts_with (c_value x) word"
      "blank_cut line c' \<longrightarrow> (\<forall>x \<in> set (items r). c_type x = TKey)"
      "\<not> blank_cut line c' \<and> CHR '':'' \<in> set line \<longrightarrow> (\<forall>x \<in> set (items r). c_type x = TValue)"
      by blast
    with True show ?thesis
      by (intro exI [of _ "c # pre"] exI [of _ c'] exI [of _ post]) simp
  next
    case False
    show ?thesis
    proof (cases "blank_cut line c")
      case True
      with Cons.prems False show ?thesis
        using try_candidates_Cons_blank [of line c ext pos schema commentPrefix word indent fin rest r]
        by (intro exI [of _ "[]"] exI [of _ c] exI [of _ rest]) simp
    next
      case nb: False
      with Cons.prems False show ?thesis
        using try_candidates_Cons_taken [of line c ext pos schema commentPrefix word indent fin rest r]
        by (intro exI [of _ "[]"] exI [of _ c] exI [of _ rest]) simp
    qed
  qed
qed

lemma bracket_colon_run:
  "completionsFromGoodParseYAML bracket_env ''[:'' ''[:'' \<lparr>row = 0, column = 2\<rparr> size_schema [] =
     Some (Inr (Completions (Some \<lparr>token = [], items =
       [\<lparr>c_value = ''height'', c_type = TKey, c_schema = size_schema, suggest_on_accept = False\<rparr>,
        \<lparr>c_value = ''weight'', c_type = TKey, c_schema = size_schema, suggest_on_accept = False\<rparr>,
        \<lparr>c_value = ''width'', c_type = TKey, c_schema = size_schema, suggest_on_accept = False\<rparr>],
       cacheable = True\<rparr>)))"
  by code_simp

lemma key_colon_run:
  "completionsFromGoodParseYAML key_colon_env ''a: '' ''a: '' \<lparr>row = 0, column = 3\<rparr> flag_schema [] =
     Some (Inr (Completions (Some \<lparr>token = [], items =
       [\<lparr>c_value = ''false'', c_type = TValue, c_schema = Schema None None (Scalar ''boolean''),
          suggest_on_accept = False\<rparr>,
        \<lparr>c_value = ''true'', c_type = TValue, c_schema = Schema None None (Scalar ''boolean''),
          suggest_on_accept = False\<rparr>],
       cacheable = True\<rparr>)))"
  by code_simp

text \<open>
  C10, as the code has it. Every item that \<open>completionsFromGoodParseYAML\<close> returns
  starts with the word being typed. If the current line is blank, every returned
  item has type \<open>key\<close>. Otherwise the result comes from the first candidate of the
  reparse search that the loop does not pass over: if the line cut by that
  candidate's deletions is blank, every returned item has type \<open>key\<close>, whether or not
  the line has a colon; if the cut line is not blank and the line has a colon,
  every returned item has type \<open>value\<close>.
\<close>

theorem completions_kind_filter:
  "completionsFromGoodParseYAML ext line source pos schema commentPrefix =
     Some (Inr (Completions (Some r))) \<longrightarrow>
   (\<forall>x \<in> set (items r). starts_with (c_value x) (word_of line)) \<and>
   (length (trim line) = 0 \<longrightarrow> (\<forall>x \<in> set (items r). c_type x = TKey)) \<and>
   (length (trim line) \<noteq> 0 \<longrightarrow>
      (\<exists>stripped pre c post.
         strip_fences True source (row pos) = Some stripped \<and>
         yielded (attemptParsesAtLine (ext_parser ext) stripped pos) = pre @ c # post \<and>
         (\<forall>p \<in> set pre. passed_over ext line p) \<and> \<not> passed_over ext line c \<and>
         (blank_cut line c \<longrightarrow> (\<forall>x \<in> set (items r). c_type x = TKey)) \<and>
         (\<not> blank_cut line c \<and> CHR '':'' \<in> set line \<longrightarrow>
            (\<forall>x \<in> set (items r). c_type x = TValue))))"
proof (intro impI)
  assume run: "completionsFromGoodParseYAML ext line source pos schema commentPrefix =
     Some (Inr (Completions (Some r)))"
  then obtain stripped where stripped: "strip_fences True source (row pos) = Some stripped"
    by (cases "strip_fences True source (row pos)") (auto simp: completionsFromGoodParseYAML_def)
  show "(\<forall>x \<in> set (items r). starts_with (c_value x) (word_of line)) \<and>
   (length (trim line) = 0 \<longrightarrow> (\<forall>x \<in> set (items r). c_type x = TKey)) \<and>
   (length (trim line) \<noteq> 0 \<longrightarrow>
      (\<exists>stripped pre c post.
         strip_fences True source (row pos) = Some stripped \<and>
         yielded (attemptParsesAtLine (ext_parser ext) stripped pos) = pre @ c # post \<and>
         (\<forall>p \<in> set pre. passed_over ext line p) \<and> \<not> passed_over ext line c \<and>
         (blank_cut line c \<longrightarrow> (\<forall>x \<in> set (items r). c_type x = TKey)) \<and>
         (\<not> blank_cut line c \<and> CHR '':'' \<in> set line \<longrightarrow>
            (\<forall>x \<in> set (items r). c_type x = TValue))))"
  proof (cases "length (trim line) = 0")
    case True
    with run stripped obtain path raw where
      "completions_at ext schema path (word_of line) (length line) commentPrefix = Some (Inr raw)"
      "keep_type TKey raw = Inr (Completions (Some r))"
      by (auto simp: completionsFromGoodParseYAML_def Let_def split: option.splits sum.splits)
    then have "(\<forall>x \<in> set (items r). starts_with (c_value x) (word_of line)) \<and>
        (\<forall>x \<in> set (items r). c_type x = TKey)"
      by (rule kept_items)
    with True show ?thesis by simp
  next
    case False
    with run stripped have "try_candidates ext line pos schema commentPrefix (word_of line)
        (length (trimEnd line) - length (trim line))
        (ending (attemptParsesAtLine (ext_parser ext) stripped pos))
        (yielded (attemptParsesAtLine (ext_parser ext) stripped pos)) =
        Some (Inr (Completions (Some r)))"
      by (simp add: completionsFromGoodParseYAML_def Let_def)
    from try_candidates_result [OF this] stripped False show ?thesis by blast
  qed
qed

text \<open>
  The theorem at the line \<open>a: \<close> with the cursor at its end, for a schema whose
  property \<open>a\<close> is a boolean.
\<close>

theorem completions_kind_filter_witness:
  "completionsFromGoodParseYAML key_colon_env ''a: '' ''a: '' \<lparr>row = 0, column = 3\<rparr> flag_schema [] =
     Some (Inr (Completions (Some \<lparr>token = [], items =
       [\<lparr>c_value = ''false'', c_type = TValue, c_schema = Schema None None (Scalar ''boolean''),
          suggest_on_accept = False\<rparr>,
        \<lparr>c_value = ''true'', c_type = TValue, c_schema = Schema None None (Scalar ''boolean''),
          suggest_on_accept = False\<rparr>],
       cacheable = True\<rparr>))) \<and>
   list_all (\<lambda>x. starts_with (c_value x) (word_of ''a: ''))
     [\<lparr>c_value = ''false'', c_type = TValue, c_schema = Schema None None (Scalar ''boolean''),
        suggest_on_accept = False\<rparr>,
      \<lparr>c_value = ''true'', c_type = TValue, c_schema = Schema None None (Scalar ''boolean''),
        suggest_on_accept = False\<rparr>]"
proof -
  let ?r = "\<lparr>token = [], items =
       [\<lparr>c_value = ''false'', c_type = TValue, c_schema = Schema None None (Scalar ''boolean''),
          suggest_on_accept = False\<rparr>,
        \<lparr>c_value = ''true'', c_type = TValue, c_schema = Schema None None (Scalar ''boolean''),
          suggest_on_accept = False\<rparr>],
       cacheable = True\<rparr>"
  from key_colon_run
    completions_kind_filter [of key_colon_env "''a: ''" "''a: ''" "\<lparr>row = 0, column = 3\<rparr>"
      flag_schema "[]" ?r]
  have "\<forall>x \<in> set (items ?r). starts_with (c_value x) (word_of ''a: '')"
    by blast
  then have "list_all (\<lambda>x. starts_with (c_value x) (word_of ''a: '')) (items ?r)"
    by (simp only: list_all_iff)
  with key_colon_run show ?thesis by simp
qed

text \<open>
  C10 as stated fails where its two cases meet. The line \<open>[:\<close> has a colon; with
  the cursor at column 2 neither the line nor its cut by one character parses
  cleanly, the first candidate is the cut by two characters, which leaves the line
  blank, and the items returned are keys.
\<close>

theorem completions_kind_filter_counterexample:
  "CHR '':'' \<in> set ''[:'' \<and>
   completionsFromGoodParseYAML bracket_env ''[:'' ''[:'' \<lparr>row = 0, column = 2\<rparr> size_schema [] =
     Some (Inr (Completions (Some \<lparr>token = [], items =
       [\<lparr>c_value = ''height'', c_type = TKey, c_schema = size_schema, suggest_on_accept = False\<rparr>,
        \<lparr>c_value = ''weight'', c_type = TKey, c_schema = size_schema, suggest_on_accept = False\<rparr>,
        \<lparr>c_value = ''width'', c_type = TKey, c_schema = size_schema, suggest_on_accept = False\<rparr>],
       cacheable = True\<rparr>)))"
  using bracket_colon_run by simp

section \<open>Validator cache\<close>

text \<open>
  Run one after the other, two calls of \<open>getValidator\<close> for the same schema name
  construct at most one validator: the second call returns the validator of the
  first and leaves the registry as it is.
\<close>

lemma getValidator_again:
  "getValidator construct schema2 schemaName
     (snd (getValidator construct schema1 schemaName reg)) =
   getValidator construct schema1 schemaName reg"
  by (cases "map_of (yamlValidators reg) schemaName") (simp_all add: getValidator_def Let_def)

lemma getValidator_constructions:
  "constructions (snd (getValidator construct schema schemaName reg)) \<le> constructions reg + 1"
  by (cases "map_of (yamlValidators reg) schemaName") (simp_all add: getValidator_def Let_def)

end
